theory Spec2Isabelle
  imports Complex_Main "HOL-Library.Sublist"
begin

section \<open>Exceptions\<close>

text \<open>
  The exception classes the publishing code distinguishes. The first three are the
  classes of \<^verbatim>\<open>utils/error_handler.py\<close> (subclasses of \<^verbatim>\<open>PublishingError\<close>); the next
  four are the classes of the \<^verbatim>\<open>requests\<close> library that the retry decorator names; the
  rest stand for every other subclass of Python's \<^verbatim>\<open>Exception\<close>. Each value carries
  the text that \<^verbatim>\<open>str(e)\<close> returns. A \<^verbatim>\<open>requests\<close> exception has a \<^verbatim>\<open>response\<close> attribute,
  which may be \<^verbatim>\<open>None\<close>; only \<^verbatim>\<open>HTTPError\<close>'s is read by the code.
\<close>

datatype retry_after = NoRetryAfter | BadRetryAfter | RetryAfterSeconds int

record response =
  status_code :: int
  retry_after_header :: retry_after

datatype exn =
    AuthenticationError string
  | RateLimitError string
  | APIError string
  | HTTPError string "response option"
  | ConnectionError string
  | Timeout string
  | RequestException string
  | AttributeError string
  | TypeError string
  | ValueError string
  | OtherError string

fun str_exn :: "exn \<Rightarrow> string" where
  "str_exn (AuthenticationError m) = m"
| "str_exn (RateLimitError m) = m"
| "str_exn (APIError m) = m"
| "str_exn (HTTPError m r) = m"
| "str_exn (ConnectionError m) = m"
| "str_exn (Timeout m) = m"
| "str_exn (RequestException m) = m"
| "str_exn (AttributeError m) = m"
| "str_exn (TypeError m) = m"
| "str_exn (ValueError m) = m"
| "str_exn (OtherError m) = m"

text \<open>The tuple \<^verbatim>\<open>(AuthenticationError, RateLimitError, APIError)\<close> of the except clauses.\<close>

fun is_publishing_error :: "exn \<Rightarrow> bool" where
  "is_publishing_error (AuthenticationError m) = True"
| "is_publishing_error (RateLimitError m) = True"
| "is_publishing_error (APIError m) = True"
| "is_publishing_error e = False"

section \<open>The retry decorator (\<^verbatim>\<open>with_retry_and_rate_limiting\<close>)\<close>

text \<open>
  The decorator's four parameters. Delays are Python floats in the source; here they are
  exact rationals (rounding, infinities and NaN are outside the model; the defaults
  \<^verbatim>\<open>1.0\<close>, \<^verbatim>\<open>60.0\<close>, \<^verbatim>\<open>2.0\<close> and their small powers are exact in both). In Python
  \<^verbatim>\<open>backoff_factor**attempt\<close> raises \<^verbatim>\<open>OverflowError\<close> once the power leaves the range of a
  float (\<^verbatim>\<open>2.0**1024\<close>); \<open>backoff\<close> has no such failure. What is stated below about the
  values of the delays is therefore stated for the parameters the repository uses
  (\<open>repository_delays\<close>) and for budgets up to 1024, where every power is an exact float and
  the product with the base delay, finite or infinite, has the minimum with \<^verbatim>\<open>60.0\<close> that
  the rationals give.
\<close>

record retry_params =
  max_retries :: int
  base_delay :: rat
  max_delay :: rat
  backoff_factor :: rat

definition default_params :: retry_params where
  "default_params = \<lparr>max_retries = 3, base_delay = 1, max_delay = 60, backoff_factor = 2\<rparr>"

text \<open>
  What the wrapped function acts on is a world \<open>'w\<close>; the wrapper adds the number of
  times it invoked the function and the delays it slept, in order.
\<close>

record 'w retry_state =
  rworld :: 'w
  calls :: nat
  sleeps :: "rat list"

text \<open>
  What an except clause of the wrapper does with a failure at a given attempt: sleep
  and go to the next attempt, leave the loop (\<^verbatim>\<open>break\<close>, followed by
  \<^verbatim>\<open>raise last_exception\<close>), or raise.
\<close>

datatype reaction = Retry rat | Break | Raise exn

definition backoff :: "retry_params \<Rightarrow> int \<Rightarrow> rat" where
  "backoff p attempt = min (base_delay p * backoff_factor p ^ nat attempt) (max_delay p)"

text \<open>\<^verbatim>\<open>time.sleep\<close> raises \<^verbatim>\<open>ValueError\<close> on a negative delay.\<close>

definition sleep_for :: "rat \<Rightarrow> reaction" where
  "sleep_for d = (if d < 0 then Raise (ValueError ''sleep length must be non-negative'')
                  else Retry d)"

fun on_failure :: "retry_params \<Rightarrow> int \<Rightarrow> exn \<Rightarrow> reaction" where
  "on_failure p attempt (RateLimitError m) =
     (if attempt = max_retries p then Break else sleep_for (backoff p attempt))"
| "on_failure p attempt (HTTPError m resp) =
     (if attempt = max_retries p then Break
      else case resp of
        None \<Rightarrow> Raise (AttributeError ''NoneType object has no attribute status_code'')
      | Some r \<Rightarrow>
          if status_code r = 429 then
            (case retry_after_header r of
               RetryAfterSeconds n \<Rightarrow>
                 if n \<noteq> 0 then sleep_for (min (of_int n) (max_delay p))
                 else sleep_for (backoff p attempt)
             | _ \<Rightarrow> sleep_for (backoff p attempt))
          else sleep_for (backoff p attempt))"
| "on_failure p attempt (ConnectionError m) =
     (if attempt = max_retries p then Break else sleep_for (backoff p attempt))"
| "on_failure p attempt (Timeout m) =
     (if attempt = max_retries p then Break else sleep_for (backoff p attempt))"
| "on_failure p attempt (RequestException m) =
     (if attempt = max_retries p then Break else sleep_for (backoff p attempt))"
| "on_failure p attempt e = Raise e"

text \<open>
  The loop \<^verbatim>\<open>for attempt in range(max_retries + 1)\<close>, over the attempts still to run.
  When the loop ends without a return, \<^verbatim>\<open>raise last_exception\<close> runs; with no attempt
  made (\<^verbatim>\<open>max_retries < 0\<close>) that is \<^verbatim>\<open>raise None\<close>, a \<^verbatim>\<open>TypeError\<close>.
\<close>

definition raise_last :: "exn option \<Rightarrow> exn" where
  "raise_last last_exception =
     (case last_exception of
        None \<Rightarrow> TypeError ''exceptions must derive from BaseException''
      | Some e \<Rightarrow> e)"

fun retry_loop ::
  "retry_params \<Rightarrow> ('w \<Rightarrow> (exn + 'a) \<times> 'w) \<Rightarrow> int list \<Rightarrow> exn option \<Rightarrow>
   'w retry_state \<Rightarrow> (exn + 'a) \<times> 'w retry_state" where
  "retry_loop p func [] last_exception st = (Inl (raise_last last_exception), st)"
| "retry_loop p func (attempt # rest) last_exception st =
     (case func (rworld st) of
        (Inr v, w) \<Rightarrow> (Inr v, st\<lparr>rworld := w, calls := Suc (calls st)\<rparr>)
      | (Inl e, w) \<Rightarrow>
          (case on_failure p attempt e of
             Raise e' \<Rightarrow> (Inl e', st\<lparr>rworld := w, calls := Suc (calls st)\<rparr>)
           | Break \<Rightarrow> (Inl e, st\<lparr>rworld := w, calls := Suc (calls st)\<rparr>)
           | Retry d \<Rightarrow>
               retry_loop p func rest (Some e)
                 (st\<lparr>rworld := w, calls := Suc (calls st), sleeps := sleeps st @ [d]\<rparr>)))"

definition with_retry_and_rate_limiting ::
  "retry_params \<Rightarrow> ('w \<Rightarrow> (exn + 'a) \<times> 'w) \<Rightarrow> 'w \<Rightarrow> (exn + 'a) \<times> 'w retry_state" where
  "with_retry_and_rate_limiting p func w =
     retry_loop p func [0..max_retries p] None \<lparr>rworld = w, calls = 0, sleeps = []\<rparr>"

text \<open>
  The failures the wrapper answers with a sleep and another attempt: the classes of its
  first two except clauses, leaving out the two inputs on which the handler itself
  raises (an \<^verbatim>\<open>HTTPError\<close> without a response, a negative \<^verbatim>\<open>Retry-After\<close>).
\<close>

fun transient :: "exn \<Rightarrow> bool" where
  "transient (RateLimitError m) = True"
| "transient (HTTPError m None) = False"
| "transient (HTTPError m (Some r)) =
     (case retry_after_header r of
        RetryAfterSeconds n \<Rightarrow> status_code r = 429 \<longrightarrow> 0 \<le> n
      | _ \<Rightarrow> True)"
| "transient (ConnectionError m) = True"
| "transient (Timeout m) = True"
| "transient (RequestException m) = True"
| "transient e = False"

definition delays_ok :: "retry_params \<Rightarrow> bool" where
  "delays_ok p = (0 \<le> base_delay p \<and> 0 \<le> max_delay p \<and> 0 \<le> backoff_factor p)"


text \<open>
  The exception classes named by the two retrying except clauses of the wrapper
  (\<open>retried_class\<close>); every other exception reaches the clause \<^verbatim>\<open>except Exception\<close>, which
  raises it again. Among the retried ones, the failures that are neither a rate limit
  nor answered by the handler with an exception of its own: the transport failures of
  \<^verbatim>\<open>requests\<close>, an \<^verbatim>\<open>HTTPError\<close> counting when it carries a response whose status is not 429
  (\<open>generic_transport\<close>). \<open>repository_delays\<close> are the delay parameters the repository uses:
  the defaults \<^verbatim>\<open>backoff_factor = 2.0\<close> and \<^verbatim>\<open>max_delay = 60.0\<close> everywhere, and the base delay
  \<^verbatim>\<open>1.0\<close> or \<^verbatim>\<open>2.0\<close> (\<^verbatim>\<open>client/devto_client.py\<close>).
\<close>

fun retried_class :: "exn \<Rightarrow> bool" where
  "retried_class (RateLimitError m) = True"
| "retried_class (HTTPError m r) = True"
| "retried_class (ConnectionError m) = True"
| "retried_class (Timeout m) = True"
| "retried_class (RequestException m) = True"
| "retried_class e = False"

fun generic_transport :: "exn \<Rightarrow> bool" where
  "generic_transport (HTTPError m (Some r)) = (status_code r \<noteq> 429)"
| "generic_transport (ConnectionError m) = True"
| "generic_transport (Timeout m) = True"
| "generic_transport (RequestException m) = True"
| "generic_transport e = False"

definition repository_delays :: "retry_params \<Rightarrow> bool" where
  "repository_delays p =
     (backoff_factor p = 2 \<and> max_delay p = 60 \<and> (base_delay p = 1 \<or> base_delay p = 2))"

text \<open>
  The two functions of \<^verbatim>\<open>tests/test_error_handling.py\<close> (\<^verbatim>\<open>TestRetryDecorator\<close>): the
  first counts its calls in \<^verbatim>\<open>call_count\<close> and raises on the first two; the second
  always raises.
\<close>

definition rate_limited_function :: "nat \<Rightarrow> (exn + string) \<times> nat" where
  "rate_limited_function call_count =
     (if Suc call_count < 3 then (Inl (RateLimitError ''Rate limited''), Suc call_count)
      else (Inr ''success'', Suc call_count))"

definition always_fails :: "unit \<Rightarrow> (exn + string) \<times> unit" where
  "always_fails w = (Inl (RateLimitError ''Always fails''), w)"


text \<open>A function that fails on every call with a timeout of the transport.\<close>

definition always_times_out :: "unit \<Rightarrow> (exn + string) \<times> unit" where
  "always_times_out w = (Inl (Timeout ''Read timed out''), w)"

section \<open>Strings\<close>

text \<open>
  A Python \<^verbatim>\<open>str\<close> is modelled as a \<^typ>\<open>string\<close> whose characters are the code points
  below 256; strings with other code points are outside the model. Of these code points,
  \<^verbatim>\<open>str.isspace\<close>, \<^verbatim>\<open>str.strip\<close> and the regular expression class \<^verbatim>\<open>\s\<close> (on \<^verbatim>\<open>str\<close>
  patterns) count the following as whitespace.
\<close>

definition is_space :: "char \<Rightarrow> bool" where
  "is_space c = (of_char c \<in> {9, 10, 11, 12, 13, 28, 29, 30, 31, 32, 133, 160 :: nat})"

definition dquote :: char where
  "dquote = CHR 0x22"

definition newline :: char where
  "newline = CHR 0x0A"

text \<open>\<^verbatim>\<open>s.strip(chars)\<close>, with the set of characters as a predicate, and \<^verbatim>\<open>s.strip()\<close>.\<close>

definition strip_chars :: "(char \<Rightarrow> bool) \<Rightarrow> string \<Rightarrow> string" where
  "strip_chars P s = rev (dropWhile P (rev (dropWhile P s)))"

definition strip :: "string \<Rightarrow> string" where
  "strip s = strip_chars is_space s"

text \<open>\<^verbatim>\<open>s.lower()\<close>: below 256 the cased letters are A-Z and U+00C0..U+00DE without U+00D7.\<close>

definition lower_char :: "char \<Rightarrow> char" where
  "lower_char c =
     (let n = of_char c :: nat
      in if (65 \<le> n \<and> n \<le> 90) \<or> (192 \<le> n \<and> n \<le> 222 \<and> n \<noteq> 215)
         then char_of (n + 32) else c)"

definition lower :: "string \<Rightarrow> string" where
  "lower s = map lower_char s"

text \<open>\<^verbatim>\<open>s.split(sep)\<close> for a separator of one character, and \<^verbatim>\<open>sep.join(items)\<close>.\<close>

fun split_on :: "char \<Rightarrow> string \<Rightarrow> string list" where
  "split_on sep [] = [[]]"
| "split_on sep (c # cs) =
     (if c = sep then [] # split_on sep cs
      else case split_on sep cs of
             [] \<Rightarrow> [[c]]
           | w # ws \<Rightarrow> (c # w) # ws)"

fun join :: "string \<Rightarrow> string list \<Rightarrow> string" where
  "join sep [] = []"
| "join sep [x] = x"
| "join sep (x # y # ys) = x @ sep @ join sep (y # ys)"

text \<open>
  \<^verbatim>\<open>re.sub(r"C+", rep, s)\<close> for a character class \<open>C\<close>: every maximal run of characters
  of the class is replaced by \<open>rep\<close>.
\<close>

function sub_runs :: "(char \<Rightarrow> bool) \<Rightarrow> string \<Rightarrow> string \<Rightarrow> string" where
  "sub_runs P rep [] = []"
| "sub_runs P rep (c # cs) =
     (if P c then rep @ sub_runs P rep (dropWhile P cs) else c # sub_runs P rep cs)"
  by pat_completeness auto
termination
  by (relation "measure (\<lambda>(P, rep, s). length s)")
     (auto simp: less_Suc_eq_le length_dropWhile_le)

text \<open>
  \<^verbatim>\<open>re.sub(pattern, "", s)\<close> for a pattern that matches no empty string: the text is
  scanned from the left; where the pattern matches, the match is dropped and the scan
  goes on behind it, elsewhere one character is kept. The pattern is given by its
  matcher, which returns the length of the match at the start of its argument.
\<close>

fun re_sub_remove :: "(string \<Rightarrow> nat option) \<Rightarrow> string \<Rightarrow> string" where
  "re_sub_remove m [] = []"
| "re_sub_remove m (c # cs) =
     (case m (c # cs) of
        Some (Suc n) \<Rightarrow> re_sub_remove m (drop n cs)
      | _ \<Rightarrow> c # re_sub_remove m cs)"

text \<open>
  The matcher of \<^verbatim>\<open>\s*lit\<close> for a literal that starts with no whitespace, and the
  matcher of \<^verbatim>\<open>\s*align="[^"]*"\<close>: the whitespace run is taken whole, and the attribute
  value runs to the next double quote, which must exist.
\<close>

definition match_ws_literal :: "string \<Rightarrow> string \<Rightarrow> nat option" where
  "match_ws_literal lit s =
     (let k = length (takeWhile is_space s)
      in if prefix lit (drop k s) then Some (k + length lit) else None)"

definition align_attr :: string where
  "align_attr = ''align='' @ [dquote]"

definition match_align :: "string \<Rightarrow> nat option" where
  "match_align s =
     (let k = length (takeWhile is_space s);
          t = drop k s
      in if prefix align_attr t then
           (let u = drop 7 t;
                j = length (takeWhile (\<lambda>c. c \<noteq> dquote) u)
            in if j < length u then Some (k + 7 + j + 1) else None)
         else None)"

text \<open>The rest of \<open>s\<close> behind the first occurrence of \<open>pat\<close>, if there is one.\<close>

fun find_after :: "string \<Rightarrow> string \<Rightarrow> string option" where
  "find_after pat [] = (if pat = [] then Some [] else None)"
| "find_after pat (c # cs) =
     (if prefix pat (c # cs) then Some (drop (length pat) (c # cs)) else find_after pat cs)"

section \<open>The content processor (\<^verbatim>\<open>processors/content_processor.py\<close>)\<close>

text \<open>
  The definitions carry the names of the methods they model, without the leading
  underscore of the private ones (\<^verbatim>\<open>_remove_frontmatter\<close>, \<^verbatim>\<open>_needs_update\<close>,
  \<^verbatim>\<open>_publish_to_platform\<close>, ...), which an Isabelle name cannot start with.
\<close>

text \<open>
  \<^verbatim>\<open>_remove_frontmatter\<close>: \<^verbatim>\<open>re.sub(r"^---\n(.*?)\n---\n", "", content, flags=re.DOTALL)\<close>.
  Without \<^verbatim>\<open>re.MULTILINE\<close> the pattern matches at the start of the text only, and the
  non-greedy group ends at the first closing line.
\<close>

definition remove_frontmatter :: "string \<Rightarrow> string" where
  "remove_frontmatter content =
     (if prefix (''---'' @ [newline]) content then
        (case find_after ([newline] @ ''---'' @ [newline]) (drop 4 content) of
           Some rest \<Rightarrow> rest
         | None \<Rightarrow> content)
      else content)"

definition normalize_content_for_comparison :: "string \<Rightarrow> string" where
  "normalize_content_for_comparison content =
     re_sub_remove match_align (sub_runs is_space '' '' (strip (remove_frontmatter content)))"

definition apply_hashnode_transformations :: "string \<Rightarrow> string" where
  "apply_hashnode_transformations content =
     re_sub_remove (match_ws_literal (align_attr @ ''right'' @ [dquote]))
       (re_sub_remove (match_ws_literal (align_attr @ ''left'' @ [dquote]))
         (re_sub_remove (match_ws_literal (align_attr @ ''center'' @ [dquote])) content))"

definition apply_devto_transformations :: "string \<Rightarrow> string" where
  "apply_devto_transformations content = content"

text \<open>The character class \<^verbatim>\<open>[a-zA-Z0-9]\<close>, and the hyphen.\<close>

definition is_ascii_alnum :: "char \<Rightarrow> bool" where
  "is_ascii_alnum c =
     (let n = of_char c :: nat
      in (48 \<le> n \<and> n \<le> 57) \<or> (65 \<le> n \<and> n \<le> 90) \<or> (97 \<le> n \<and> n \<le> 122))"

definition is_hyphen :: "char \<Rightarrow> bool" where
  "is_hyphen c = (c = CHR ''-'')"

definition sanitize_tag_for_hashnode :: "string \<Rightarrow> string" where
  "sanitize_tag_for_hashnode tag =
     strip_chars is_hyphen
       (sub_runs is_hyphen ''-''
         (sub_runs is_space ''-''
           (filter (\<lambda>c. is_ascii_alnum c \<or> is_space c \<or> is_hyphen c) (strip (lower tag)))))"

definition sanitize_tag_for_devto :: "string \<Rightarrow> string" where
  "sanitize_tag_for_devto tag = lower (strip tag)"

text \<open>
  \<^verbatim>\<open>convert_tags_for_platform\<close>. Its first loop, which splits the tags that hold commas,
  is \<open>split_comma_tags\<close>.
\<close>

definition split_comma_tags :: "string list \<Rightarrow> string list" where
  "split_comma_tags tags =
     concat (map (\<lambda>tag. if CHR '','' \<in> set tag
                         then filter (\<lambda>t. t \<noteq> []) (map strip (split_on CHR '','' tag))
                         else [strip tag]) tags)"

definition convert_tags_for_platform :: "string list \<Rightarrow> string \<Rightarrow> string list" where
  "convert_tags_for_platform tags platform =
     (if tags = [] then []
      else let processed_tags = split_comma_tags tags
           in if lower platform = ''hashnode'' then
                map sanitize_tag_for_hashnode (filter (\<lambda>tag. tag \<noteq> []) processed_tags)
              else if lower platform = ''devto'' then
                map sanitize_tag_for_devto (filter (\<lambda>tag. tag \<noteq> []) processed_tags)
              else
                map (\<lambda>tag. lower (strip tag)) (filter (\<lambda>tag. strip tag \<noteq> []) processed_tags))"

text \<open>
  The Hashnode policy in the words of the specification. The characters the policy
  keeps are the ASCII letters and digits, whitespace and the hyphen; whitespace and
  hyphens separate words. \<open>split_words\<close> gives the words of a text, its maximal runs of
  characters that are no separators, in their order.
\<close>

definition is_separator :: "char \<Rightarrow> bool" where
  "is_separator c = (is_space c \<or> is_hyphen c)"

definition hashnode_tag_char :: "char \<Rightarrow> bool" where
  "hashnode_tag_char c = (is_ascii_alnum c \<or> is_space c \<or> is_hyphen c)"

function split_words :: "string \<Rightarrow> string list" where
  "split_words [] = []"
| "split_words (c # cs) =
     (if is_separator c then split_words cs
      else (c # takeWhile (\<lambda>x. \<not> is_separator x) cs) #
           split_words (dropWhile (\<lambda>x. \<not> is_separator x) cs))"
  by pat_completeness auto
termination
  by (relation "measure length") (auto simp: less_Suc_eq_le length_dropWhile_le)

text \<open>
  The converted tag of the policy: the tag in lower case, without the characters the
  policy does not keep, its words joined by single hyphens.
\<close>

definition hyphenated :: "string \<Rightarrow> string" where
  "hyphenated tag = join ''-'' (split_words (filter hashnode_tag_char (lower tag)))"

text \<open>
  The pieces of a list of tags: every tag is cut at its commas, the pieces are trimmed
  and the empty ones dropped. A tag without a comma is one piece.
\<close>

definition tag_pieces :: "string list \<Rightarrow> string list" where
  "tag_pieces ts =
     concat (map (\<lambda>tag. filter (\<lambda>t. t \<noteq> []) (map strip (split_on CHR '','' tag))) ts)"

text \<open>
  The characters a sanitized Hashnode tag is made of besides the hyphen, and the number
  of tags the Hashnode client sends (\<^verbatim>\<open>for tag in tags[:5]\<close> in
  \<^verbatim>\<open>client/hashnode_client.py\<close>, "Hashnode allows max 5 tags").
\<close>

definition is_lower_alnum :: "char \<Rightarrow> bool" where
  "is_lower_alnum c =
     (let n = of_char c :: nat in (48 \<le> n \<and> n \<le> 57) \<or> (97 \<le> n \<and> n \<le> 122))"

definition hashnode_max_tags :: nat where
  "hashnode_max_tags = 5"

text \<open>
  A text in the form the whitespace steps of the normalization produce: no whitespace at
  either end, and every whitespace character is one blank between two other characters.
\<close>

fun tight :: "string \<Rightarrow> bool" where
  "tight [] = True"
| "tight [c] = (\<not> is_space c)"
| "tight (c # d # s) =
     (if is_space c then c = CHR '' '' \<and> \<not> is_space d \<and> tight (d # s) else tight (d # s))"

text \<open>The first two steps of \<^verbatim>\<open>normalize_content_for_comparison\<close>.\<close>

definition squeeze :: "string \<Rightarrow> string" where
  "squeeze content = sub_runs is_space '' '' (strip (remove_frontmatter content))"

text \<open>The front-matter example, and a text that starts with an alignment attribute.\<close>

definition frontmatter_example :: string where
  "frontmatter_example =
     ''---'' @ [newline] @ ''a: 1'' @ [newline] @ ''---'' @ [newline] @ ''Body''"

definition leading_align_example :: string where
  "leading_align_example = align_attr @ ''center'' @ [dquote] @ '' Intro''"


section \<open>The data model (\<^verbatim>\<open>models/post_content.py\<close>) and Python values\<close>

text \<open>
  What a platform client returns is a Python \<^verbatim>\<open>dict\<close> built from the platform's JSON:
  its values are modelled by \<open>pyval\<close> (without floats), a \<^verbatim>\<open>dict\<close> with string keys by an
  association list read with \<open>dict_get\<close> (\<^verbatim>\<open>d.get(key, default)\<close>). The empty \<^verbatim>\<open>dict\<close> is
  the empty list.
\<close>

datatype pyval =
    PNone
  | PBool bool
  | PInt int
  | PStr string
  | PList "pyval list"
  | PDict "(string \<times> pyval) list"

type_synonym pydict = "(string \<times> pyval) list"

definition dict_get :: "pydict \<Rightarrow> string \<Rightarrow> pyval \<Rightarrow> pyval" where
  "dict_get d k dflt = (case map_of d k of Some v \<Rightarrow> v | None \<Rightarrow> dflt)"

record post_content =
  title :: string
  subtitle :: string
  slug :: string
  tags :: "string list"
  cover :: string
  domain :: string
  save_as_draft :: bool
  enable_toc :: bool
  body_markdown :: string
  canonical_url :: string
  series_name :: "string option"

record publication_result =
  platform :: string
  success :: bool
  action :: string
  article_id :: "pyval option"
  error_message :: "string option"

text \<open>The dictionary \<^verbatim>\<open>_create_content_dict\<close> builds for the platform API.\<close>

record frontmatter_data =
  fm_title :: string
  fm_subtitle :: string
  fm_slug :: string
  fm_tags :: string
  fm_cover :: string
  fm_domain :: string
  fm_saveAsDraft :: bool
  fm_seriesName :: "string option"
  fm_canonicalUrl :: string

record content_dict =
  frontmatterData :: frontmatter_data
  bodyMarkdown :: string

section \<open>Platform clients (\<^verbatim>\<open>interfaces/platform_client.py\<close>)\<close>

text \<open>
  A platform client is abstract: its four operations that the publication manager calls
  act on a world \<open>'w\<close> (the platform, the network, the client's own fields) and either
  raise or return. The manager's state is the world and the list of the client calls it
  has made so far, each with the name of the platform whose client was called.
\<close>

record 'w platform_client =
  find_article_by_title :: "string \<Rightarrow> 'w \<Rightarrow> (exn + string option \<times> bool option) \<times> 'w"
  publish_article :: "content_dict \<Rightarrow> bool \<Rightarrow> 'w \<Rightarrow> (exn + pydict) \<times> 'w"
  update_article :: "string \<Rightarrow> content_dict \<Rightarrow> bool \<Rightarrow> 'w \<Rightarrow> (exn + pydict) \<times> 'w"
  get_article :: "string \<Rightarrow> bool \<Rightarrow> 'w \<Rightarrow> (exn + pydict option) \<times> 'w"

datatype call =
    FindArticleByTitle string
  | PublishArticle content_dict bool
  | UpdateArticle string content_dict bool
  | GetArticle string bool

fun is_mutation :: "call \<Rightarrow> bool" where
  "is_mutation (PublishArticle d p) = True"
| "is_mutation (UpdateArticle i d p) = True"
| "is_mutation c = False"

record 'w state =
  world :: 'w
  trace :: "(string \<times> call) list"

definition call_find_article_by_title ::
  "'w platform_client \<Rightarrow> string \<Rightarrow> string \<Rightarrow> 'w state \<Rightarrow>
   (exn + string option \<times> bool option) \<times> 'w state" where
  "call_find_article_by_title client platform_name t st =
     (case find_article_by_title client t (world st) of
        (r, w) \<Rightarrow> (r, \<lparr>world = w, trace = trace st @ [(platform_name, FindArticleByTitle t)]\<rparr>))"

definition call_publish_article ::
  "'w platform_client \<Rightarrow> string \<Rightarrow> content_dict \<Rightarrow> bool \<Rightarrow> 'w state \<Rightarrow>
   (exn + pydict) \<times> 'w state" where
  "call_publish_article client platform_name d published st =
     (case publish_article client d published (world st) of
        (r, w) \<Rightarrow> (r, \<lparr>world = w, trace = trace st @ [(platform_name, PublishArticle d published)]\<rparr>))"

definition call_update_article ::
  "'w platform_client \<Rightarrow> string \<Rightarrow> string \<Rightarrow> content_dict \<Rightarrow> bool \<Rightarrow> 'w state \<Rightarrow>
   (exn + pydict) \<times> 'w state" where
  "call_update_article client platform_name i d published st =
     (case update_article client i d published (world st) of
        (r, w) \<Rightarrow>
          (r, \<lparr>world = w, trace = trace st @ [(platform_name, UpdateArticle i d published)]\<rparr>))"

definition call_get_article ::
  "'w platform_client \<Rightarrow> string \<Rightarrow> string \<Rightarrow> bool \<Rightarrow> 'w state \<Rightarrow>
   (exn + pydict option) \<times> 'w state" where
  "call_get_article client platform_name i published st =
     (case get_article client i published (world st) of
        (r, w) \<Rightarrow> (r, \<lparr>world = w, trace = trace st @ [(platform_name, GetArticle i published)]\<rparr>))"

section \<open>Content for a platform\<close>

text \<open>
  \<^verbatim>\<open>process_content_for_platform\<close>, \<^verbatim>\<open>generate_canonical_url\<close> and
  \<^verbatim>\<open>_create_content_dict\<close>. The table of contents comes from the library \<^verbatim>\<open>md_toc\<close>, which
  is not part of the repository, so \<^verbatim>\<open>_generate_table_of_contents\<close> is a parameter here;
  it catches the library's exceptions and always returns a string.
\<close>

definition process_content_for_platform ::
  "(string \<Rightarrow> string) \<Rightarrow> post_content \<Rightarrow> string \<Rightarrow> string" where
  "process_content_for_platform generate_table_of_contents pc pf =
     (let content = body_markdown pc;
          content =
            (if enable_toc pc then
               (let toc = generate_table_of_contents content
                in if toc \<noteq> [] then toc @ [newline, newline] @ content else content)
             else content)
      in if lower pf = ''hashnode'' then apply_hashnode_transformations content
         else if lower pf = ''devto'' then apply_devto_transformations content
         else content)"

definition generate_canonical_url :: "post_content \<Rightarrow> string \<Rightarrow> string" where
  "generate_canonical_url pc pf =
     (if lower pf = ''devto'' then canonical_url pc
      else if lower pf = ''hashnode'' then canonical_url pc
      else canonical_url pc)"

definition create_content_dict :: "post_content \<Rightarrow> string \<Rightarrow> string \<Rightarrow> content_dict" where
  "create_content_dict pc processed_content platform_name =
     (let platform_tags = convert_tags_for_platform (tags pc) platform_name;
          canonical = generate_canonical_url pc platform_name
      in \<lparr>frontmatterData =
            \<lparr>fm_title = title pc, fm_subtitle = subtitle pc, fm_slug = slug pc,
             fm_tags = join '','' platform_tags, fm_cover = cover pc, fm_domain = domain pc,
             fm_saveAsDraft = save_as_draft pc, fm_seriesName = series_name pc,
             fm_canonicalUrl = canonical\<rparr>,
          bodyMarkdown = processed_content\<rparr>)"

section \<open>The publication manager (\<^verbatim>\<open>managers/publication_manager.py\<close>)\<close>

text \<open>
  The comparison of \<^verbatim>\<open>_needs_update\<close>, once the remote article is there. A value that is
  no string makes \<^verbatim>\<open>re.sub\<close> raise, and a tag that is a list or a dictionary makes
  \<^verbatim>\<open>set(existing_tags)\<close> raise; the \<^verbatim>\<open>except Exception\<close> clause of \<^verbatim>\<open>_needs_update\<close> turns
  both into the answer \<^verbatim>\<open>True\<close>. Python's \<^verbatim>\<open>!=\<close> between a string and a value is the
  inequality of \<open>pyval\<close>; a \<^verbatim>\<open>bool\<close> equals the integers 1 and 0.
\<close>

fun hashable :: "pyval \<Rightarrow> bool" where
  "hashable (PList l) = False"
| "hashable (PDict d) = False"
| "hashable v = True"

fun existing_tags_of :: "pyval \<Rightarrow> pyval list" where
  "existing_tags_of (PStr s) =
     map PStr (filter (\<lambda>t. t \<noteq> []) (map strip (split_on CHR '','' s)))"
| "existing_tags_of (PList l) = l"
| "existing_tags_of v = []"

definition bool_eq :: "bool \<Rightarrow> pyval \<Rightarrow> bool" where
  "bool_eq b v = (v = PBool b \<or> v = PInt (if b then 1 else 0))"

definition changes_detected :: "post_content \<Rightarrow> pydict \<Rightarrow> bool" where
  "changes_detected pc existing_article =
     (case dict_get existing_article ''body_markdown'' (PStr []) of
        PStr platform_body \<Rightarrow>
          (let local_content = normalize_content_for_comparison (body_markdown pc);
               platform_content = normalize_content_for_comparison platform_body;
               title_changed = (PStr (title pc) \<noteq> dict_get existing_article ''title'' (PStr []));
               content_changed = (local_content \<noteq> platform_content);
               existing_tags = existing_tags_of (dict_get existing_article ''tags'' (PList []))
           in if \<not> list_all hashable existing_tags then True
              else
                (let tags_changed = (set (map PStr (tags pc)) \<noteq> set existing_tags);
                     published_changed =
                       (\<not> bool_eq (\<not> save_as_draft pc)
                            (dict_get existing_article ''published'' (PBool False)));
                     cover_changed =
                       (PStr (cover pc) \<noteq> dict_get existing_article ''cover_image'' (PStr []))
                 in title_changed \<or> content_changed \<or> tags_changed \<or> published_changed \<or>
                    cover_changed))
      | _ \<Rightarrow> True)"

text \<open>
  \<^verbatim>\<open>if not existing_article\<close>: \<^verbatim>\<open>None\<close> and the empty dictionary count as no article.
\<close>

fun fetched :: "pydict option \<Rightarrow> pydict option" where
  "fetched None = None"
| "fetched (Some d) = (if d = [] then None else Some d)"

text \<open>
  The two except clauses of \<^verbatim>\<open>_needs_update\<close>: the publishing errors are raised again,
  any other exception is logged and answered with \<^verbatim>\<open>True\<close>.
\<close>

definition needs_update_except :: "exn \<Rightarrow> 'w state \<Rightarrow> (exn + bool) \<times> 'w state" where
  "needs_update_except e st = (if is_publishing_error e then (Inl e, st) else (Inr True, st))"

definition needs_update ::
  "post_content \<Rightarrow> string \<Rightarrow> 'w platform_client \<Rightarrow> string \<Rightarrow> 'w state \<Rightarrow>
   (exn + bool) \<times> 'w state" where
  "needs_update pc i client platform_name st =
     (case call_get_article client platform_name i True st of
        (Inl e, st1) \<Rightarrow> needs_update_except e st1
      | (Inr existing_article, st1) \<Rightarrow>
          (case fetched existing_article of
             Some article \<Rightarrow> (Inr (changes_detected pc article), st1)
           | None \<Rightarrow>
               (case call_get_article client platform_name i False st1 of
                  (Inl e, st2) \<Rightarrow> needs_update_except e st2
                | (Inr existing_article, st2) \<Rightarrow>
                    (case fetched existing_article of
                       None \<Rightarrow> (Inr True, st2)
                     | Some article \<Rightarrow> (Inr (changes_detected pc article), st2)))))"

text \<open>
  \<^verbatim>\<open>_publish_to_platform\<close>. Both of its except clauses raise the exception again (the
  second after logging it), so an exception of a client call is the result.
\<close>

definition publish_to_platform ::
  "(string \<Rightarrow> string) \<Rightarrow> post_content \<Rightarrow> string \<Rightarrow> 'w platform_client \<Rightarrow> 'w state \<Rightarrow>
   (exn + publication_result) \<times> 'w state" where
  "publish_to_platform generate_table_of_contents pc platform_name client st =
     (case call_find_article_by_title client platform_name (title pc) st of
        (Inl e, st1) \<Rightarrow> (Inl e, st1)
      | (Inr (found_id, is_published), st1) \<Rightarrow>
          (let processed_content =
                 process_content_for_platform generate_table_of_contents pc platform_name;
               d = create_content_dict pc processed_content platform_name
           in case found_id of
                None \<Rightarrow>
                  (case call_publish_article client platform_name d (\<not> save_as_draft pc) st1 of
                     (Inl e, st2) \<Rightarrow> (Inl e, st2)
                   | (Inr response, st2) \<Rightarrow>
                       (Inr \<lparr>platform = platform_name, success = True, action = ''created'',
                             article_id = map_of response ''id'', error_message = None\<rparr>, st2))
              | Some i \<Rightarrow>
                  (case needs_update pc i client platform_name st1 of
                     (Inl e, st2) \<Rightarrow> (Inl e, st2)
                   | (Inr True, st2) \<Rightarrow>
                       (case call_update_article client platform_name i d
                               (\<not> save_as_draft pc) st2 of
                          (Inl e, st3) \<Rightarrow> (Inl e, st3)
                        | (Inr response, st3) \<Rightarrow>
                            (Inr \<lparr>platform = platform_name, success = True, action = ''updated'',
                                  article_id = Some (PStr i), error_message = None\<rparr>, st3))
                   | (Inr False, st2) \<Rightarrow>
                       (Inr \<lparr>platform = platform_name, success = True, action = ''skipped'',
                             article_id = Some (PStr i), error_message = None\<rparr>, st2))))"

text \<open>
  \<^verbatim>\<open>publish_to_all_platforms\<close>. \<open>publish_step\<close> is the body of its loop, the try statement
  with its two except clauses: a publishing error becomes an error result with its
  message, any other exception an error result with the message behind
  \<^verbatim>\<open>"Unexpected error: "\<close>. \<open>publish_loop\<close> is the loop over the items of the client
  dictionary, in their order. The summary that follows the loop is only logged. Logging
  is not modelled.
\<close>

definition error_text :: "exn \<Rightarrow> string" where
  "error_text e =
     (if is_publishing_error e then str_exn e else ''Unexpected error: '' @ str_exn e)"

definition publish_step ::
  "(string \<Rightarrow> string) \<Rightarrow> post_content \<Rightarrow> string \<Rightarrow> 'w platform_client \<Rightarrow> 'w state \<Rightarrow>
   publication_result \<times> 'w state" where
  "publish_step generate_table_of_contents pc platform_name client st =
     (case publish_to_platform generate_table_of_contents pc platform_name client st of
        (Inr result, st1) \<Rightarrow> (result, st1)
      | (Inl e, st1) \<Rightarrow>
          (\<lparr>platform = platform_name, success = False, action = ''error'',
            article_id = None, error_message = Some (error_text e)\<rparr>, st1))"

fun publish_loop ::
  "(string \<Rightarrow> string) \<Rightarrow> post_content \<Rightarrow> (string \<times> 'w platform_client) list \<Rightarrow>
   publication_result list \<Rightarrow> 'w state \<Rightarrow> publication_result list \<times> 'w state" where
  "publish_loop generate_table_of_contents pc [] results st = (results, st)"
| "publish_loop generate_table_of_contents pc ((platform_name, client) # rest) results st =
     (case publish_step generate_table_of_contents pc platform_name client st of
        (result, st1) \<Rightarrow>
          publish_loop generate_table_of_contents pc rest (results @ [result]) st1)"

definition publish_to_all_platforms ::
  "(string \<Rightarrow> string) \<Rightarrow> (string \<times> 'w platform_client) list \<Rightarrow> post_content \<Rightarrow> 'w state \<Rightarrow>
   (exn + publication_result list) \<times> 'w state" where
  "publish_to_all_platforms generate_table_of_contents platform_clients pc st =
     (case publish_loop generate_table_of_contents pc platform_clients [] st of
        (results, st1) \<Rightarrow> (Inr results, st1))"

text \<open>
  The result of a platform whose processing raised, the result of an update, and the
  dictionary \<^verbatim>\<open>_publish_to_platform\<close> hands to the client.
\<close>

abbreviation error_result :: "string \<Rightarrow> exn \<Rightarrow> publication_result" where
  "error_result pn e \<equiv>
     \<lparr>platform = pn, success = False, action = ''error'', article_id = None,
      error_message = Some (error_text e)\<rparr>"

abbreviation updated_result :: "string \<Rightarrow> string \<Rightarrow> publication_result" where
  "updated_result pn i \<equiv>
     \<lparr>platform = pn, success = True, action = ''updated'', article_id = Some (PStr i),
      error_message = None\<rparr>"

abbreviation payload :: "(string \<Rightarrow> string) \<Rightarrow> post_content \<Rightarrow> string \<Rightarrow> content_dict" where
  "payload toc pc pn \<equiv> create_content_dict pc (process_content_for_platform toc pc pn) pn"

section \<open>Test fixtures (\<^verbatim>\<open>tests/test_publication_manager.py\<close>)\<close>

text \<open>
  \<^verbatim>\<open>MockPlatformClient\<close>: its world is its two fields \<^verbatim>\<open>articles\<close> and \<^verbatim>\<open>next_id\<close>; with
  \<^verbatim>\<open>should_fail\<close> every operation raises \<^verbatim>\<open>Exception("Mock error in ...")\<close>. \<open>str_nat\<close> is
  \<^verbatim>\<open>str\<close> on a natural number.
\<close>

record mock_world =
  articles :: "(string \<times> pydict) list"
  next_id :: nat

function str_nat :: "nat \<Rightarrow> string" where
  "str_nat n =
     (if n < 10 then [char_of (48 + n)] else str_nat (n div 10) @ [char_of (48 + n mod 10)])"
  by pat_completeness auto
termination
  by (relation "measure id") auto

definition mock_error :: "string \<Rightarrow> exn" where
  "mock_error name = OtherError (''Mock error in '' @ name)"

definition mock_article :: "pyval \<Rightarrow> content_dict \<Rightarrow> bool \<Rightarrow> pydict" where
  "mock_article i d published =
     [(''id'', i),
      (''title'', PStr (fm_title (frontmatterData d))),
      (''body_markdown'', PStr (bodyMarkdown d)),
      (''published'', PBool published),
      (''tags'', PList (map PStr (if fm_tags (frontmatterData d) \<noteq> []
                                   then split_on CHR '','' (fm_tags (frontmatterData d))
                                   else []))),
      (''cover_image'', PStr (fm_cover (frontmatterData d)))]"

definition mock_find_article_by_title ::
  "string \<Rightarrow> bool \<Rightarrow> string \<Rightarrow> mock_world \<Rightarrow> (exn + string option \<times> bool option) \<times> mock_world" where
  "mock_find_article_by_title name should_fail t w =
     (if should_fail then (Inl (mock_error name), w)
      else case filter (\<lambda>(i, a). dict_get a ''title'' PNone = PStr t) (articles w) of
             [] \<Rightarrow> (Inr (None, None), w)
           | (i, a) # rest \<Rightarrow>
               (Inr (Some i, (case dict_get a ''published'' PNone of
                                PBool b \<Rightarrow> Some b
                              | _ \<Rightarrow> None)), w))"

definition mock_publish_article ::
  "string \<Rightarrow> bool \<Rightarrow> content_dict \<Rightarrow> bool \<Rightarrow> mock_world \<Rightarrow> (exn + pydict) \<times> mock_world" where
  "mock_publish_article name should_fail d published w =
     (if should_fail then (Inl (mock_error name), w)
      else let i = str_nat (next_id w)
           in (Inr [(''id'', PStr i)],
               \<lparr>articles = articles w @ [(i, mock_article (PStr i) d published)],
                next_id = Suc (next_id w)\<rparr>))"

definition mock_update_article ::
  "string \<Rightarrow> bool \<Rightarrow> string \<Rightarrow> content_dict \<Rightarrow> bool \<Rightarrow> mock_world \<Rightarrow>
   (exn + pydict) \<times> mock_world" where
  "mock_update_article name should_fail i d published w =
     (if should_fail then (Inl (mock_error name), w)
      else (Inr [(''id'', PStr i)],
            w\<lparr>articles :=
                map (\<lambda>(j, a). if j = i then (j, mock_article (dict_get a ''id'' PNone) d published)
                               else (j, a))
                    (articles w)\<rparr>))"

definition mock_get_article ::
  "string \<Rightarrow> bool \<Rightarrow> string \<Rightarrow> bool \<Rightarrow> mock_world \<Rightarrow> (exn + pydict option) \<times> mock_world" where
  "mock_get_article name should_fail i published w =
     (if should_fail then (Inl (mock_error name), w)
      else case map_of (articles w) i of
             None \<Rightarrow> (Inr None, w)
           | Some a \<Rightarrow>
               (if a \<noteq> [] \<and> dict_get a ''published'' PNone = PBool published
                then (Inr (Some a), w) else (Inr None, w)))"

definition mock_client :: "string \<Rightarrow> bool \<Rightarrow> mock_world platform_client" where
  "mock_client name should_fail =
     \<lparr>find_article_by_title = mock_find_article_by_title name should_fail,
      publish_article = mock_publish_article name should_fail,
      update_article = mock_update_article name should_fail,
      get_article = mock_get_article name should_fail\<rparr>"

text \<open>\<^verbatim>\<open>create_test_post_content\<close>, and the article the mock client stores for it.\<close>

definition test_post_content :: post_content where
  "test_post_content =
     \<lparr>title = ''Test Article'', subtitle = ''Test Subtitle'', slug = ''test-article'',
      tags = [''python'', ''testing''], cover = ''https://example.com/cover.jpg'',
      domain = ''example.com'', save_as_draft = False, enable_toc = True,
      body_markdown = ''# Test Article'' @ [newline, newline] @ ''This is test content.'',
      canonical_url = ''https://example.com/test-article'', series_name = None\<rparr>"

definition test_article :: pydict where
  "test_article =
     [(''id'', PStr ''1''),
      (''title'', PStr ''Test Article''),
      (''body_markdown'', PStr (''# Test Article'' @ [newline, newline] @ ''This is test content.'')),
      (''published'', PBool True),
      (''tags'', PList [PStr ''python'', PStr ''testing'']),
      (''cover_image'', PStr ''https://example.com/cover.jpg'')]"

definition empty_world :: "mock_world state" where
  "empty_world = \<lparr>world = \<lparr>articles = [], next_id = 1\<rparr>, trace = []\<rparr>"

definition stored_world :: "mock_world state" where
  "stored_world = \<lparr>world = \<lparr>articles = [(''1'', test_article)], next_id = 2\<rparr>, trace = []\<rparr>"

definition no_toc :: "string \<Rightarrow> string" where
  "no_toc content = []"

text \<open>
  The clients of the failure isolation tests: one that always raises, then one that
  works.
\<close>

definition failing_and_working :: "(string \<times> mock_world platform_client) list" where
  "failing_and_working =
     [(''hashnode'', mock_client ''hashnode'' True), (''devto'', mock_client ''devto'' False)]"

text \<open>
  A client that finds and updates articles as the mock client does, but whose
  \<^verbatim>\<open>get_article\<close> raises a \<^verbatim>\<open>ValueError\<close> (an unreadable response); and that client
  followed by one that always raises.
\<close>

definition fetch_failing_client :: "mock_world platform_client" where
  "fetch_failing_client =
     (mock_client ''devto'' False)
       \<lparr>get_article := \<lambda>i published w. (Inl (ValueError ''invalid response''), w)\<rparr>"

definition unreadable_and_failing :: "(string \<times> mock_world platform_client) list" where
  "unreadable_and_failing =
     [(''devto'', fetch_failing_client), (''hashnode'', mock_client ''hashnode'' True)]"

text \<open>Six tags, one more than the Hashnode client sends.\<close>

definition six_tags :: "string list" where
  "six_tags = [''python'', ''testing'', ''devops'', ''cloud'', ''security'', ''automation'']"

text \<open>Tags with commas, blanks, empty pieces and runs of separators.\<close>

definition messy_tags :: "string list" where
  "messy_tags = [''Web  -- Development, C++'', '' '', ''Node.js,,'']"

section \<open>Properties of the retry decorator\<close>

lemma backoff_nonneg: "delays_ok p \<Longrightarrow> 0 \<le> backoff p k"
  by (simp add: backoff_def delays_ok_def)

lemma sleep_for_nonneg: "0 \<le> d \<Longrightarrow> sleep_for d = Retry d"
  by (simp add: sleep_for_def)

lemma on_failure_transient:
  assumes "transient e" "delays_ok p" "attempt \<noteq> max_retries p"
  shows "\<exists>d. on_failure p attempt e = Retry d"
proof (cases e)
  case (HTTPError m resp)
  with assms obtain r where r: "resp = Some r" by (cases resp) auto
  have b: "sleep_for (backoff p attempt) = Retry (backoff p attempt)"
    using assms(2) by (simp add: sleep_for_nonneg backoff_nonneg)
  show ?thesis
  proof (cases "retry_after_header r")
    case (RetryAfterSeconds n)
    show ?thesis
    proof (cases "status_code r = 429 \<and> n \<noteq> 0")
      case True
      with assms(1) HTTPError r RetryAfterSeconds have "0 \<le> n" by simp
      then have "0 \<le> min (of_int n) (max_delay p)"
        using assms(2) by (simp add: delays_ok_def)
      then show ?thesis
        using True HTTPError r RetryAfterSeconds assms(3) by (simp add: sleep_for_nonneg)
    next
      case False
      then show ?thesis
        using HTTPError r RetryAfterSeconds assms(3) b by auto
    qed
  qed (use HTTPError r assms(3) b in auto)
qed (use assms in \<open>auto simp: sleep_for_nonneg backoff_nonneg\<close>)

lemma on_failure_transient_last:
  "transient e \<Longrightarrow> on_failure p (max_retries p) e = Break"
  by (cases e) auto

lemma on_failure_rate_limit:
  "delays_ok p \<Longrightarrow>
   on_failure p attempt (RateLimitError m) =
     (if attempt = max_retries p then Break else Retry (backoff p attempt))"
  by (simp add: sleep_for_nonneg backoff_nonneg)

lemma upto_0_2: "[0..2::int] = [0, 1, 2]"
  by (simp add: upto_rec1)

lemma upto_0_nonneg: "0 \<le> (m::int) \<Longrightarrow> [0..m] = 0 # [1..m]"
  by (simp add: upto_rec1)

text \<open>
  A function that fails on every call with a failure the wrapper retries is invoked once
  per attempt of the loop, with a sleep between two attempts; the failure of the last
  attempt is raised.
\<close>

lemma retry_loop_transient:
  assumes ok: "delays_ok p"
    and fails: "\<forall>w. \<exists>e w'. func w = (Inl e, w') \<and> transient e"
  shows "a \<le> max_retries p \<Longrightarrow>
    \<exists>e st'. retry_loop p func [a..max_retries p] prev st = (Inl e, st') \<and> transient e \<and>
      calls st' = calls st + nat (max_retries p - a + 1) \<and>
      length (sleeps st') = length (sleeps st) + nat (max_retries p - a)"
proof (induction "nat (max_retries p - a)" arbitrary: a prev st)
  case 0
  then have a: "a = max_retries p" by simp
  obtain e w' where f: "func (rworld st) = (Inl e, w')" "transient e"
    using fails by blast
  have "[a..max_retries p] = [a]" using a by simp
  then show ?case
    using f a by (simp add: on_failure_transient_last)
next
  case (Suc n)
  then have lt: "a < max_retries p" by linarith
  obtain e w' where f: "func (rworld st) = (Inl e, w')" "transient e"
    using fails by blast
  obtain d where d: "on_failure p a e = Retry d"
    using on_failure_transient[OF f(2) ok, of a] lt by auto
  have up: "[a..max_retries p] = a # [a + 1..max_retries p]"
    using lt by (simp add: upto_rec1)
  let ?st = "st\<lparr>rworld := w', calls := Suc (calls st), sleeps := sleeps st @ [d]\<rparr>"
  have n: "n = nat (max_retries p - (a + 1))" using Suc(2) by linarith
  have le: "a + 1 \<le> max_retries p" using lt by simp
  obtain e' st' where r: "retry_loop p func [a + 1..max_retries p] (Some e) ?st = (Inl e', st')"
    "transient e'" "calls st' = calls ?st + nat (max_retries p - (a + 1) + 1)"
    "length (sleeps st') = length (sleeps ?st) + nat (max_retries p - (a + 1))"
    using Suc(1)[OF n le, of "Some e" ?st] by blast
  have "retry_loop p func [a..max_retries p] prev st = (Inl e', st')"
    using up f d r(1) by simp
  moreover have "calls st' = calls st + nat (max_retries p - a + 1)"
    using r(3) lt by simp
  moreover have "length (sleeps st') = length (sleeps st) + nat (max_retries p - a)"
    using r(4) lt by simp
  ultimately show ?case using r(2) by blast
qed

text \<open>
  Claim C7. Under \<^verbatim>\<open>max_retries = 2\<close> (and delays that \<^verbatim>\<open>time.sleep\<close> accepts): a function
  that fails twice with a retried failure and then succeeds makes the wrapper return the
  success value after exactly three invocations; a function that raises a rate-limit
  failure on every call makes the wrapper raise a rate-limit failure (the third one)
  after exactly three invocations and two sleeps.
\<close>

theorem retry_wrapper_three_invocations:
  assumes p: "max_retries p = 2" "delays_ok p"
  shows "(transient e1 \<and> transient e2 \<and>
          func w0 = (Inl e1, w1) \<and> func w1 = (Inl e2, w2) \<and> func w2 = (Inr v, w3)
            \<longrightarrow> fst (with_retry_and_rate_limiting p func w0) = Inr v
              \<and> calls (snd (with_retry_and_rate_limiting p func w0)) = 3
              \<and> rworld (snd (with_retry_and_rate_limiting p func w0)) = w3)
       \<and> ((\<forall>w. \<exists>m w'. func w = (Inl (RateLimitError m), w'))
            \<longrightarrow> (\<exists>m. fst (with_retry_and_rate_limiting p func w0) = Inl (RateLimitError m))
              \<and> calls (snd (with_retry_and_rate_limiting p func w0)) = 3
              \<and> sleeps (snd (with_retry_and_rate_limiting p func w0)) = [backoff p 0, backoff p 1])"
proof (intro conjI impI)
  assume h: "transient e1 \<and> transient e2 \<and>
          func w0 = (Inl e1, w1) \<and> func w1 = (Inl e2, w2) \<and> func w2 = (Inr v, w3)"
  obtain d1 where d1: "on_failure p 0 e1 = Retry d1"
    using on_failure_transient[of e1 p 0] h p by auto
  obtain d2 where d2: "on_failure p 1 e2 = Retry d2"
    using on_failure_transient[of e2 p 1] h p by auto
  have r: "with_retry_and_rate_limiting p func w0 =
        (Inr v, \<lparr>rworld = w3, calls = 3, sleeps = [d1, d2]\<rparr>)"
    using h d1 d2 p(1) by (simp add: with_retry_and_rate_limiting_def upto_0_2)
  show "fst (with_retry_and_rate_limiting p func w0) = Inr v" by (simp add: r)
  show "calls (snd (with_retry_and_rate_limiting p func w0)) = 3" by (simp add: r)
  show "rworld (snd (with_retry_and_rate_limiting p func w0)) = w3" by (simp add: r)
next
  assume a: "\<forall>w. \<exists>m w'. func w = (Inl (RateLimitError m), w')"
  obtain m1 w1 where f1: "func w0 = (Inl (RateLimitError m1), w1)" using a by blast
  obtain m2 w2 where f2: "func w1 = (Inl (RateLimitError m2), w2)" using a by blast
  obtain m3 w3 where f3: "func w2 = (Inl (RateLimitError m3), w3)" using a by blast
  have r: "with_retry_and_rate_limiting p func w0 =
        (Inl (RateLimitError m3), \<lparr>rworld = w3, calls = 3, sleeps = [backoff p 0, backoff p 1]\<rparr>)"
    using f1 f2 f3 p
    by (simp add: with_retry_and_rate_limiting_def upto_0_2 on_failure_rate_limit
             del: on_failure.simps)
  show "\<exists>m. fst (with_retry_and_rate_limiting p func w0) = Inl (RateLimitError m)"
    by (simp add: r)
  show "calls (snd (with_retry_and_rate_limiting p func w0)) = 3" by (simp add: r)
  show "sleeps (snd (with_retry_and_rate_limiting p func w0)) = [backoff p 0, backoff p 1]"
    by (simp add: r)
qed

text \<open>
  The two tests of \<^verbatim>\<open>TestRetryDecorator\<close>, with the decorator's default delays.
\<close>

theorem retry_wrapper_three_invocations_witness:
  "fst (with_retry_and_rate_limiting (default_params\<lparr>max_retries := 2\<rparr>)
          rate_limited_function 0) = Inr ''success''
   \<and> calls (snd (with_retry_and_rate_limiting (default_params\<lparr>max_retries := 2\<rparr>)
          rate_limited_function 0)) = 3
   \<and> rworld (snd (with_retry_and_rate_limiting (default_params\<lparr>max_retries := 2\<rparr>)
          rate_limited_function 0)) = 3
   \<and> (\<exists>m. fst (with_retry_and_rate_limiting (default_params\<lparr>max_retries := 2\<rparr>)
          always_fails ()) = Inl (RateLimitError m))
   \<and> calls (snd (with_retry_and_rate_limiting (default_params\<lparr>max_retries := 2\<rparr>)
          always_fails ())) = 3"
proof -
  let ?p = "default_params\<lparr>max_retries := 2\<rparr>"
  have p: "max_retries ?p = 2" "delays_ok ?p"
    by (simp_all add: default_params_def delays_ok_def)
  have h: "transient (RateLimitError ''Rate limited'') \<and>
     transient (RateLimitError ''Rate limited'') \<and>
     rate_limited_function 0 = (Inl (RateLimitError ''Rate limited''), 1) \<and>
     rate_limited_function 1 = (Inl (RateLimitError ''Rate limited''), 2) \<and>
     rate_limited_function 2 = (Inr ''success'', 3)"
    by (simp add: rate_limited_function_def)
  have a: "\<forall>w. \<exists>m w'. always_fails w = (Inl (RateLimitError m), w')"
    by (simp add: always_fails_def)
  from retry_wrapper_three_invocations[OF p, of "RateLimitError ''Rate limited''"
      "RateLimitError ''Rate limited''" rate_limited_function 0 1 2 "''success''" 3] h
  have 1: "fst (with_retry_and_rate_limiting ?p rate_limited_function 0) = Inr ''success''
     \<and> calls (snd (with_retry_and_rate_limiting ?p rate_limited_function 0)) = 3
     \<and> rworld (snd (with_retry_and_rate_limiting ?p rate_limited_function 0)) = 3"
    by blast
  from retry_wrapper_three_invocations[OF p, of _ _ always_fails "()"] a
  have 2: "(\<exists>m. fst (with_retry_and_rate_limiting ?p always_fails ()) = Inl (RateLimitError m))
     \<and> calls (snd (with_retry_and_rate_limiting ?p always_fails ())) = 3"
    by blast
  from 1 2 show ?thesis by blast
qed

lemma on_failure_not_retried: "\<not> retried_class e \<Longrightarrow> on_failure p attempt e = Raise e"
  by (cases e) auto

lemma retry_loop_not_retried:
  "\<not> retried_class e \<Longrightarrow> func (rworld st) = (Inl e, w') \<Longrightarrow>
   retry_loop p func (attempt # rest) prev st =
     (Inl e, st\<lparr>rworld := w', calls := Suc (calls st)\<rparr>)"
  by (simp add: on_failure_not_retried)

lemma repository_delays_ok: "repository_delays p \<Longrightarrow> delays_ok p"
  by (auto simp: repository_delays_def delays_ok_def)

lemma on_failure_generic:
  assumes "generic_transport e" "delays_ok p"
  shows "on_failure p attempt e =
           (if attempt = max_retries p then Break else Retry (backoff p attempt))"
proof -
  have b: "sleep_for (backoff p attempt) = Retry (backoff p attempt)"
    using assms(2) by (simp add: sleep_for_nonneg backoff_nonneg)
  show ?thesis
  proof (cases e)
    case (HTTPError m resp)
    with assms(1) obtain r where "resp = Some r" "status_code r \<noteq> 429"
      by (cases resp) auto
    then show ?thesis using HTTPError b by simp
  qed (use assms(1) b in auto)
qed

lemma retry_loop_generic:
  assumes ok: "delays_ok p"
    and fails: "\<forall>w. \<exists>e w'. func w = (Inl e, w') \<and> generic_transport e"
  shows "a \<le> max_retries p \<Longrightarrow>
    \<exists>e st'. retry_loop p func [a..max_retries p] prev st = (Inl e, st') \<and> generic_transport e \<and>
      calls st' = calls st + nat (max_retries p - a + 1) \<and>
      sleeps st' = sleeps st @ map (backoff p) [a..max_retries p - 1]"
proof (induction "nat (max_retries p - a)" arbitrary: a prev st)
  case 0
  then have a: "a = max_retries p" by simp
  obtain e w' where f: "func (rworld st) = (Inl e, w')" "generic_transport e"
    using fails by blast
  have "[a..max_retries p] = [a]" using a by simp
  then show ?case
    using f a by (simp add: on_failure_generic[OF f(2) ok])
next
  case (Suc n)
  then have lt: "a < max_retries p" by linarith
  obtain e w' where f: "func (rworld st) = (Inl e, w')" "generic_transport e"
    using fails by blast
  have d: "on_failure p a e = Retry (backoff p a)"
    using on_failure_generic[OF f(2) ok, of a] lt by simp
  have up: "[a..max_retries p] = a # [a + 1..max_retries p]"
    using lt by (simp add: upto_rec1)
  have up2: "[a..max_retries p - 1] = a # [a + 1..max_retries p - 1]"
    using lt by (simp add: upto_rec1)
  let ?st = "st\<lparr>rworld := w', calls := Suc (calls st), sleeps := sleeps st @ [backoff p a]\<rparr>"
  have n: "n = nat (max_retries p - (a + 1))" using Suc(2) by linarith
  have le: "a + 1 \<le> max_retries p" using lt by simp
  obtain e' st' where r: "retry_loop p func [a + 1..max_retries p] (Some e) ?st = (Inl e', st')"
    "generic_transport e'" "calls st' = calls ?st + nat (max_retries p - (a + 1) + 1)"
    "sleeps st' = sleeps ?st @ map (backoff p) [a + 1..max_retries p - 1]"
    using Suc(1)[OF n le, of "Some e" ?st] by blast
  have "retry_loop p func [a..max_retries p] prev st = (Inl e', st')"
    using up f d r(1) by simp
  moreover have "calls st' = calls st + nat (max_retries p - a + 1)"
    using r(3) lt by simp
  moreover have "sleeps st' = sleeps st @ map (backoff p) [a..max_retries p - 1]"
    using r(4) up2 by simp
  ultimately show ?case using r(2) by blast
qed

lemma backoff_repository:
  "repository_delays p \<Longrightarrow> backoff p attempt = min (base_delay p * 2 ^ nat attempt) 60"
  by (simp add: repository_delays_def backoff_def)

text \<open>
  Claim C8, as amended. A failure raised in a wrapped call as \<^verbatim>\<open>APIError\<close>, as
  \<^verbatim>\<open>AuthenticationError\<close>, or as any exception other than \<^verbatim>\<open>RateLimitError\<close> and the
  \<^verbatim>\<open>requests\<close> exceptions \<^verbatim>\<open>HTTPError\<close>, \<^verbatim>\<open>ConnectionError\<close>, \<^verbatim>\<open>Timeout\<close> and
  \<^verbatim>\<open>RequestException\<close> is not retried: at whatever attempt it occurs, the wrapper raises it
  after that invocation, without a sleep; so under every budget \<^verbatim>\<open>max_retries >= 0\<close> a call
  that fails in this way at once is invoked once. A generic failure that reaches the
  wrapper as \<^verbatim>\<open>ConnectionError\<close>, \<^verbatim>\<open>Timeout\<close>, \<^verbatim>\<open>RequestException\<close>, or as \<^verbatim>\<open>HTTPError\<close> with a
  response whose status is not 429, is retried with exponential backoff: with the
  backoff factor 2.0, the maximum delay 60.0, a base delay of 1.0 or 2.0 and a budget
  \<^verbatim>\<open>0 <= max_retries <= 1024\<close>, a function that fails in this way on every call is
  invoked \<^verbatim>\<open>max_retries + 1\<close> times, the wrapper sleeps \<^verbatim>\<open>min(base_delay * 2**k, 60)\<close> seconds
  after the failure of attempt \<^verbatim>\<open>k\<close>, for \<^verbatim>\<open>k = 0, ..., max_retries - 1\<close>, and then raises
  the last failure.
\<close>

theorem api_error_not_retried:
  "(\<not> retried_class e \<and> func (rworld st) = (Inl e, w') \<longrightarrow>
      retry_loop p func (attempt # rest) prev st =
        (Inl e, st\<lparr>rworld := w', calls := Suc (calls st)\<rparr>))
   \<and> (0 \<le> max_retries p \<and> \<not> retried_class e \<and> func w = (Inl e, w') \<longrightarrow>
      with_retry_and_rate_limiting p func w =
        (Inl e, \<lparr>rworld = w', calls = 1, sleeps = []\<rparr>))
   \<and> \<not> retried_class (APIError m) \<and> \<not> retried_class (AuthenticationError m)
   \<and> (repository_delays p \<and> 0 \<le> max_retries p \<and> max_retries p \<le> 1024 \<and>
       (\<forall>w. \<exists>e w'. func w = (Inl e, w') \<and> generic_transport e) \<longrightarrow>
      (\<exists>e. fst (with_retry_and_rate_limiting p func w) = Inl e \<and> generic_transport e) \<and>
      calls (snd (with_retry_and_rate_limiting p func w)) = nat (max_retries p) + 1 \<and>
      sleeps (snd (with_retry_and_rate_limiting p func w)) =
        map (\<lambda>attempt. min (base_delay p * 2 ^ nat attempt) 60) [0..max_retries p - 1])"
proof (intro conjI impI)
  assume "\<not> retried_class e \<and> func (rworld st) = (Inl e, w')"
  then show "retry_loop p func (attempt # rest) prev st =
        (Inl e, st\<lparr>rworld := w', calls := Suc (calls st)\<rparr>)"
    using retry_loop_not_retried[of e func st w' p attempt rest prev] by blast
next
  assume a: "0 \<le> max_retries p \<and> \<not> retried_class e \<and> func w = (Inl e, w')"
  then have "[0..max_retries p] = 0 # [1..max_retries p]" by (simp add: upto_0_nonneg)
  then show "with_retry_and_rate_limiting p func w =
        (Inl e, \<lparr>rworld = w', calls = 1, sleeps = []\<rparr>)"
    using a by (simp add: with_retry_and_rate_limiting_def on_failure_not_retried)
next
  show "\<not> retried_class (APIError m)" by simp
  show "\<not> retried_class (AuthenticationError m)" by simp
next
  assume h: "repository_delays p \<and> 0 \<le> max_retries p \<and> max_retries p \<le> 1024 \<and>
       (\<forall>w. \<exists>e w'. func w = (Inl e, w') \<and> generic_transport e)"
  let ?st = "\<lparr>rworld = w, calls = 0, sleeps = []\<rparr>"
  have ok: "delays_ok p" using h repository_delays_ok by blast
  obtain e st' where r: "retry_loop p func [0..max_retries p] None ?st = (Inl e, st')"
    "generic_transport e" "calls st' = calls ?st + nat (max_retries p - 0 + 1)"
    "sleeps st' = sleeps ?st @ map (backoff p) [0..max_retries p - 1]"
    using retry_loop_generic[OF ok, of func 0 None ?st] h by blast
  have b: "map (backoff p) [0..max_retries p - 1] =
      map (\<lambda>attempt. min (base_delay p * 2 ^ nat attempt) 60) [0..max_retries p - 1]"
    using h by (simp add: backoff_repository)
  show "\<exists>e. fst (with_retry_and_rate_limiting p func w) = Inl e \<and> generic_transport e"
    using r(1,2) by (simp add: with_retry_and_rate_limiting_def)
  show "calls (snd (with_retry_and_rate_limiting p func w)) = nat (max_retries p) + 1"
    using r(1,3) h by (simp add: with_retry_and_rate_limiting_def nat_add_distrib)
  show "sleeps (snd (with_retry_and_rate_limiting p func w)) =
        map (\<lambda>attempt. min (base_delay p * 2 ^ nat attempt) 60) [0..max_retries p - 1]"
    using r(1,4) b by (simp add: with_retry_and_rate_limiting_def)
qed

text \<open>
  Under the default parameters an \<^verbatim>\<open>APIError\<close> costs one invocation and no sleep; a
  function that always times out is invoked four times, with sleeps of 1, 2 and 4
  seconds.
\<close>

theorem api_error_not_retried_witness:
  "with_retry_and_rate_limiting default_params
     (\<lambda>w::unit. (Inl (APIError ''Invalid JSON response from devto'') :: exn + string, w)) () =
     (Inl (APIError ''Invalid JSON response from devto''),
      \<lparr>rworld = (), calls = 1, sleeps = []\<rparr>)
   \<and> calls (snd (with_retry_and_rate_limiting default_params always_times_out ())) = 4
   \<and> sleeps (snd (with_retry_and_rate_limiting default_params always_times_out ())) = [1, 2, 4]"
proof -
  let ?f = "\<lambda>w::unit. (Inl (APIError ''Invalid JSON response from devto'') :: exn + string, w)"
  have p: "0 \<le> max_retries default_params" "repository_delays default_params"
    "max_retries default_params \<le> 1024"
    by (simp_all add: default_params_def repository_delays_def)
  have a: "\<forall>w. \<exists>e w'. always_times_out w = (Inl e, w') \<and> generic_transport e"
    by (simp add: always_times_out_def)
  have n: "nat (max_retries default_params) = 3" "[0..max_retries default_params - 1] = [0, 1, 2]"
    "base_delay default_params = 1"
    by (simp_all add: default_params_def upto_rec1)
  have 1: "with_retry_and_rate_limiting default_params ?f () =
     (Inl (APIError ''Invalid JSON response from devto''),
      \<lparr>rworld = (), calls = 1, sleeps = []\<rparr>)"
    using api_error_not_retried[where p = default_params and func = ?f and w = "()"
        and e = "APIError ''Invalid JSON response from devto''" and w' = "()"] p(1)
    by simp
  have 2: "calls (snd (with_retry_and_rate_limiting default_params always_times_out ())) = 4
    \<and> sleeps (snd (with_retry_and_rate_limiting default_params always_times_out ())) = [1, 2, 4]"
    using api_error_not_retried[where p = default_params and func = always_times_out
        and w = "()"] p a n
    by simp
  from 1 2 show ?thesis by blast
qed

text \<open>
  Claim C8 as stated fails: under \<^verbatim>\<open>max_retries = 2\<close> a function that raises \<^verbatim>\<open>APIError\<close>
  on every call is invoked once, not three times, and the wrapper never sleeps.
\<close>

theorem api_error_retried_counterexample:
  "with_retry_and_rate_limiting (default_params\<lparr>max_retries := 2\<rparr>)
     (\<lambda>w::unit. (Inl (APIError ''API error on devto: 500'') :: exn + unit, w)) () =
   (Inl (APIError ''API error on devto: 500''), \<lparr>rworld = (), calls = 1, sleeps = []\<rparr>)"
  by (simp add: with_retry_and_rate_limiting_def default_params_def upto_0_nonneg)

section \<open>Properties of the string functions\<close>

lemma is_space_space [simp]: "is_space (CHR '' '')"
  by (simp add: is_space_def)

lemma is_space_newline [simp]: "is_space newline"
  by (simp add: is_space_def newline_def)

lemma strip_chars_ends:
  "strip_chars P s = [] \<or> (\<not> P (hd (strip_chars P s)) \<and> \<not> P (last (strip_chars P s)))"
proof (cases "dropWhile P s")
  case Nil
  have "strip_chars P s = []" unfolding strip_chars_def Nil by simp
  then show ?thesis by simp
next
  case (Cons a t)
  then have a: "\<not> P a" using hd_dropWhile[of P s] by (metis list.sel(1) list.simps(3))
  have eq: "strip_chars P s = a # rev (dropWhile P (rev t))"
    using Cons a by (simp add: strip_chars_def dropWhile_append3)
  have "\<not> P (last (a # rev (dropWhile P (rev t))))"
  proof (cases "dropWhile P (rev t)")
    case Nil
    then show ?thesis using a by simp
  next
    case (Cons b u)
    then have "\<not> P b" using hd_dropWhile[of P "rev t"] by (metis list.sel(1) list.simps(3))
    then show ?thesis using Cons by simp
  qed
  then show ?thesis using eq a by simp
qed

lemma strip_chars_id:
  assumes "s = [] \<or> (\<not> P (hd s) \<and> \<not> P (last s))"
  shows "strip_chars P s = s"
proof (cases s)
  case Nil
  then show ?thesis by (simp add: strip_chars_def)
next
  case (Cons a t)
  with assms have h: "\<not> P a" "\<not> P (last (a # t))" by auto
  have 1: "dropWhile P s = s" using Cons h by simp
  have e: "butlast s @ [last s] = s" using Cons by simp
  have "rev (butlast s @ [last s]) = last s # rev (butlast s)" by simp
  then have "rev s = last s # rev (butlast s)" unfolding e .
  then have "dropWhile P (rev s) = rev s" using h Cons by simp
  then show ?thesis using 1 by (simp add: strip_chars_def)
qed

lemma sublist_strip_chars: "sublist (strip_chars P s) s"
proof -
  have "sublist (dropWhile P (rev (dropWhile P s))) (rev (dropWhile P s))" by simp
  then have "sublist (strip_chars P s) (dropWhile P s)"
    unfolding strip_chars_def by (metis sublist_rev rev_rev_ident)
  then show ?thesis
    using sublist_dropWhile sublist_order.order_trans by blast
qed

lemma sub_runs_tight_id: "tight s \<Longrightarrow> sub_runs is_space '' '' s = s"
  by (induction s rule: tight.induct) (auto split: if_splits)

lemma tight_last: "tight s \<Longrightarrow> s \<noteq> [] \<Longrightarrow> \<not> is_space (last s)"
  by (induction s rule: tight.induct) (auto split: if_splits)

lemma tight_spaces: "tight s \<Longrightarrow> c \<in> set s \<Longrightarrow> is_space c \<Longrightarrow> c = CHR '' ''"
  by (induction s rule: tight.induct) (auto split: if_splits)

lemma tight_Cons: "\<not> is_space c \<Longrightarrow> tight s \<Longrightarrow> tight (c # s)"
  by (cases s) auto

lemma dropWhile_last:
  "s \<noteq> [] \<Longrightarrow> \<not> P (last s) \<Longrightarrow> dropWhile P s \<noteq> [] \<and> last (dropWhile P s) = last s"
  by (induction s) (auto split: if_splits)

lemma tight_sub_runs:
  "s = [] \<or> \<not> is_space (last s) \<Longrightarrow> tight (sub_runs is_space '' '' s)"
proof (induction is_space "'' ''" s rule: sub_runs.induct)
  case 1
  then show ?case by simp
next
  case (2 c cs)
  show ?case
  proof (cases "is_space c")
    case True
    with 2(3) have cs: "cs \<noteq> []" "\<not> is_space (last cs)" by (auto split: if_splits)
    let ?t = "dropWhile is_space cs"
    have t: "?t \<noteq> []" "last ?t = last cs" using dropWhile_last[of cs is_space] cs by auto
    then obtain d t' where dt: "?t = d # t'" by (cases ?t) auto
    have d: "\<not> is_space d" using hd_dropWhile[of is_space cs] t(1) dt by (metis list.sel(1))
    have "tight (sub_runs is_space '' '' ?t)"
      using 2(1)[OF True] t cs by simp
    then show ?thesis using True dt d by simp
  next
    case False
    have "tight (sub_runs is_space '' '' cs)"
      using 2(2)[OF False] 2(3) by (cases cs) (auto split: if_splits)
    then show ?thesis using False by (simp add: tight_Cons)
  qed
qed


lemma align_attr_no_space: "c \<in> set align_attr \<Longrightarrow> \<not> is_space c"
  by (auto simp: align_attr_def is_space_def dquote_def)

lemma prefix_sub_runs:
  assumes p: "\<forall>c \<in> set p. \<not> P c" and r: "P r"
  shows "prefix p (sub_runs P [r] s) \<Longrightarrow> prefix p s"
  using p
proof (induction p arbitrary: s)
  case Nil
  then show ?case by simp
next
  case (Cons a p)
  show ?case
  proof (cases s)
    case Nil
    with Cons.prems show ?thesis by simp
  next
    case (Cons c cs)
    show ?thesis
    proof (cases "P c")
      case True
      with Cons.prems Cons r show ?thesis by auto
    next
      case False
      with Cons.prems Cons Cons.IH[of cs] show ?thesis by auto
    qed
  qed
qed

lemma sublist_sub_runs:
  assumes p: "\<forall>c \<in> set p. \<not> is_space c"
  shows "sublist p (sub_runs is_space '' '' s) \<Longrightarrow> sublist p s"
proof (induction is_space "'' ''" s rule: sub_runs.induct)
  case 1
  then show ?case by simp
next
  case (2 c cs)
  show ?case
  proof (cases "is_space c")
    case True
    let ?r = "sub_runs is_space '' '' (dropWhile is_space cs)"
    have "sub_runs is_space '' '' (c # cs) = CHR '' '' # ?r"
      using True by simp
    with 2(3) have "sublist p (CHR '' '' # ?r)" by simp
    then have "prefix p (CHR '' '' # ?r) \<or> sublist p ?r"
      by (simp only: sublist_Cons_right)
    then show ?thesis
    proof
      assume "prefix p (CHR '' '' # ?r)"
      then have "p = []" using p by (cases p) auto
      then show ?thesis by simp
    next
      assume "sublist p ?r"
      then have d: "sublist p (dropWhile is_space cs)" by (rule 2(1)[OF True])
      have "sublist p cs"
        by (rule sublist_order.order_trans[OF d sublist_dropWhile])
      then show ?thesis by (simp only: sublist_Cons_right simp_thms)
    qed
  next
    case False
    have e: "sub_runs is_space '' '' (c # cs) = c # sub_runs is_space '' '' cs"
      using False by simp
    with 2(3) have "sublist p (c # sub_runs is_space '' '' cs)" by simp
    then have "prefix p (c # sub_runs is_space '' '' cs) \<or> sublist p (sub_runs is_space '' '' cs)"
      by (simp only: sublist_Cons_right)
    then show ?thesis
    proof
      assume "prefix p (c # sub_runs is_space '' '' cs)"
      then have h: "prefix p (sub_runs is_space [CHR '' ''] (c # cs))" using e by simp
      have "prefix p (c # cs)"
        by (rule prefix_sub_runs[OF p is_space_space h])
      then show ?thesis by (rule prefix_imp_sublist)
    next
      assume "sublist p (sub_runs is_space '' '' cs)"
      then have "sublist p cs" by (rule 2(2)[OF False])
      then show ?thesis by (simp only: sublist_Cons_right simp_thms)
    qed
  qed
qed

lemma find_after_suffix: "find_after pat s = Some rest \<Longrightarrow> suffix rest s"
proof (induction s)
  case Nil
  then show ?case by (simp split: if_splits)
next
  case (Cons c cs)
  show ?case
  proof (cases "prefix pat (c # cs)")
    case True
    with Cons.prems have "rest = drop (length pat) (c # cs)" by simp
    then show ?thesis using suffix_drop by blast
  next
    case False
    with Cons have "suffix rest cs" by simp
    then show ?thesis by (simp add: suffix_Cons)
  qed
qed

lemma suffix_remove_frontmatter: "suffix (remove_frontmatter x) x"
proof (cases "prefix (''---'' @ [newline]) x")
  case False
  then show ?thesis by (simp add: remove_frontmatter_def)
next
  case True
  show ?thesis
  proof (cases "find_after ([newline] @ ''---'' @ [newline]) (drop 4 x)")
    case None
    then show ?thesis by (simp add: remove_frontmatter_def)
  next
    case (Some rest)
    then have "suffix rest (drop 4 x)" by (rule find_after_suffix)
    then have "suffix rest x" using suffix_drop suffix_order.order_trans by blast
    then show ?thesis using True Some by (simp add: remove_frontmatter_def)
  qed
qed

lemma match_align_sublist: "match_align s = Some n \<Longrightarrow> sublist align_attr s"
proof -
  assume "match_align s = Some n"
  then have "prefix align_attr (drop (length (takeWhile is_space s)) s)"
    by (auto simp: match_align_def Let_def split: if_splits)
  then show ?thesis
    using sublist_altdef' suffix_drop by blast
qed

lemma re_sub_remove_align_id:
  "\<not> sublist align_attr s \<Longrightarrow> re_sub_remove match_align s = s"
proof (induction s)
  case Nil
  then show ?case by simp
next
  case (Cons c cs)
  then have "match_align (c # cs) = None"
    using match_align_sublist by (cases "match_align (c # cs)") auto
  moreover have "\<not> sublist align_attr cs"
    using Cons.prems by (simp add: sublist_Cons_right)
  ultimately show ?case using Cons.IH by simp
qed

lemma tight_squeeze: "tight (squeeze x)"
  unfolding squeeze_def strip_def
  using strip_chars_ends[of is_space "remove_frontmatter x"] by (auto intro: tight_sub_runs)

lemma hd_squeeze: "squeeze x = [] \<or> \<not> is_space (hd (squeeze x))"
proof -
  let ?z = "strip (remove_frontmatter x)"
  have z: "?z = [] \<or> \<not> is_space (hd ?z)"
    unfolding strip_def using strip_chars_ends[of is_space "remove_frontmatter x"] by auto
  show ?thesis
  proof (cases ?z)
    case Nil
    then show ?thesis by (simp add: squeeze_def)
  next
    case (Cons c cs)
    with z show ?thesis by (simp add: squeeze_def)
  qed
qed

lemma remove_frontmatter_tight: "tight s \<Longrightarrow> remove_frontmatter s = s"
proof -
  assume t: "tight s"
  have "newline \<notin> set s"
  proof
    assume "newline \<in> set s"
    then have "newline = CHR '' ''" using tight_spaces[OF t] by simp
    then show False by (simp add: newline_def)
  qed
  then have "\<not> prefix (''---'' @ [newline]) s"
    using set_mono_prefix by fastforce
  then show ?thesis by (simp add: remove_frontmatter_def)
qed

lemma squeeze_idem: "squeeze (squeeze x) = squeeze x"
proof -
  let ?y = "squeeze x"
  have t: "tight ?y" by (rule tight_squeeze)
  have 1: "remove_frontmatter ?y = ?y" using t by (rule remove_frontmatter_tight)
  have "?y = [] \<or> (\<not> is_space (hd ?y) \<and> \<not> is_space (last ?y))"
    using hd_squeeze[of x] tight_last[OF t] by auto
  then have 2: "strip ?y = ?y" unfolding strip_def by (rule strip_chars_id)
  have 3: "sub_runs is_space '' '' ?y = ?y" using t by (rule sub_runs_tight_id)
  show ?thesis
    using 1 2 3 by (simp add: squeeze_def[of "squeeze x"])
qed

lemma sublist_squeeze:
  assumes "sublist align_attr (squeeze x)"
  shows "sublist align_attr x"
proof -
  have "sublist align_attr (strip (remove_frontmatter x))"
    using assms sublist_sub_runs[of align_attr] align_attr_no_space
    by (auto simp: squeeze_def)
  then have "sublist align_attr (remove_frontmatter x)"
    unfolding strip_def using sublist_strip_chars sublist_order.order_trans by blast
  then show ?thesis
    using suffix_remove_frontmatter suffix_imp_sublist sublist_order.order_trans by blast
qed

lemma normalize_squeeze:
  "normalize_content_for_comparison x = re_sub_remove match_align (squeeze x)"
  by (simp add: normalize_content_for_comparison_def squeeze_def)

lemma normalize_idem:
  assumes "\<not> sublist align_attr x"
  shows "normalize_content_for_comparison (normalize_content_for_comparison x) =
         normalize_content_for_comparison x"
proof -
  have "\<not> sublist align_attr (squeeze x)" using assms sublist_squeeze by blast
  then have n: "normalize_content_for_comparison x = squeeze x"
    by (simp add: normalize_squeeze re_sub_remove_align_id)
  show ?thesis
    by (simp add: n) (simp add: normalize_squeeze squeeze_idem n[unfolded normalize_squeeze])
qed

lemma set_strip_chars: "set (strip_chars P s) \<subseteq> set s"
  using sublist_strip_chars set_mono_sublist by blast

lemma set_sub_runs: "set (sub_runs P rep s) \<subseteq> {c \<in> set s. \<not> P c} \<union> set rep"
proof (induction P rep s rule: sub_runs.induct)
  case (1 P rep)
  then show ?case by simp
next
  case (2 P rep c cs)
  show ?case
  proof (cases "P c")
    case True
    have "set (dropWhile P cs) \<subseteq> set cs" by (simp add: set_dropWhileD subsetI)
    then show ?thesis using 2(1)[OF True] True by auto
  next
    case False
    then show ?thesis using 2(2)[OF False] by auto
  qed
qed

lemma lower_char_not_upper:
  "\<not> (65 \<le> (of_char (lower_char c) :: nat) \<and> (of_char (lower_char c) :: nat) \<le> 90)"
  by (auto simp: lower_char_def Let_def)

lemma sanitize_chars:
  assumes "c \<in> set (sanitize_tag_for_hashnode tag)"
  shows "is_lower_alnum c \<or> c = CHR ''-''"
proof -
  let ?f = "filter (\<lambda>c. is_ascii_alnum c \<or> is_space c \<or> is_hyphen c) (strip (lower tag))"
  let ?a = "sub_runs is_space ''-'' ?f"
  let ?b = "sub_runs is_hyphen ''-'' ?a"
  have "c \<in> set ?b" using assms set_strip_chars unfolding sanitize_tag_for_hashnode_def by blast
  then have "c \<in> set ?a \<or> c = CHR ''-''" using set_sub_runs[of is_hyphen "''-''" ?a] by auto
  moreover have "c \<in> set ?a \<Longrightarrow> (c \<in> set ?f \<and> \<not> is_space c) \<or> c = CHR ''-''"
    using set_sub_runs[of is_space "''-''" ?f] by auto
  moreover have "c \<in> set ?f \<Longrightarrow> \<not> is_space c \<Longrightarrow> is_lower_alnum c \<or> c = CHR ''-''"
  proof -
    assume a: "c \<in> set ?f" "\<not> is_space c"
    then have k: "is_ascii_alnum c \<or> is_hyphen c" by auto
    have "c \<in> set (lower tag)" using a(1) set_strip_chars[of is_space "lower tag"]
      by (auto simp: strip_def)
    then obtain d where "c = lower_char d" by (auto simp: lower_def)
    then have "\<not> (65 \<le> (of_char c :: nat) \<and> (of_char c :: nat) \<le> 90)"
      using lower_char_not_upper by simp
    then show ?thesis using k by (auto simp: is_ascii_alnum_def is_lower_alnum_def is_hyphen_def Let_def)
  qed
  ultimately show ?thesis by blast
qed

lemma sub_runs_hyphen_hd:
  "sub_runs is_hyphen ''-'' (dropWhile is_hyphen s) = [] \<or>
   hd (sub_runs is_hyphen ''-'' (dropWhile is_hyphen s)) \<noteq> CHR ''-''"
proof (cases "dropWhile is_hyphen s")
  case Nil
  show ?thesis unfolding Nil by simp
next
  case (Cons d t)
  then have "\<not> is_hyphen d" using hd_dropWhile[of is_hyphen s] by (metis list.sel(1) list.simps(3))
  then show ?thesis using Cons by (simp add: is_hyphen_def)
qed

lemma no_double_hyphen_sub_runs: "\<not> sublist ''--'' (sub_runs is_hyphen ''-'' s)"
proof (induction is_hyphen "''-''" s rule: sub_runs.induct)
  case 1
  then show ?case by simp
next
  case (2 c cs)
  show ?case
  proof (cases "is_hyphen c")
    case True
    let ?r = "sub_runs is_hyphen ''-'' (dropWhile is_hyphen cs)"
    have "\<not> prefix ''--'' (CHR ''-'' # ?r)"
      using sub_runs_hyphen_hd[of cs] by (cases ?r) auto
    moreover have "\<not> sublist ''--'' ?r" using 2(1)[OF True] .
    ultimately show ?thesis using True by (simp add: sublist_Cons_right)
  next
    case False
    have "\<not> prefix ''--'' (c # sub_runs is_hyphen ''-'' cs)"
      using False by (simp add: is_hyphen_def)
    moreover have "\<not> sublist ''--'' (sub_runs is_hyphen ''-'' cs)" using 2(2)[OF False] .
    ultimately show ?thesis using False by (simp add: sublist_Cons_right)
  qed
qed

lemma sanitize_no_double_hyphen: "\<not> sublist ''--'' (sanitize_tag_for_hashnode tag)"
  unfolding sanitize_tag_for_hashnode_def
  using no_double_hyphen_sub_runs sublist_strip_chars sublist_order.order_trans by blast

lemma sanitize_ends:
  "sanitize_tag_for_hashnode tag = [] \<or>
   (hd (sanitize_tag_for_hashnode tag) \<noteq> CHR ''-'' \<and> last (sanitize_tag_for_hashnode tag) \<noteq> CHR ''-'')"
  unfolding sanitize_tag_for_hashnode_def
  using strip_chars_ends[of is_hyphen] by (simp add: is_hyphen_def)

lemma split_comma_tags_plain:
  "\<forall>t \<in> set ts. CHR '','' \<notin> set t \<and> strip t \<noteq> [] \<Longrightarrow>
   filter (\<lambda>t. t \<noteq> []) (split_comma_tags ts) = map strip ts"
  by (induction ts) (auto simp: split_comma_tags_def)

text \<open>The Hashnode sanitizer computes the hyphenated words of the tag.\<close>

lemma sub_runs_append_keep:
  "\<forall>x \<in> set w. \<not> P x \<Longrightarrow> sub_runs P rep (w @ t) = w @ sub_runs P rep t"
  by (induction w) simp_all

lemma dropWhile_dropWhile_weaker:
  "(\<And>x. P x \<Longrightarrow> Q x) \<Longrightarrow> dropWhile Q (dropWhile P xs) = dropWhile Q xs"
  by (induction xs) auto

lemma rstrip_keep: "\<forall>x \<in> set xs. \<not> P x \<Longrightarrow> rev (dropWhile P (rev xs)) = xs"
  by (induction xs rule: rev_induct) simp_all

lemma rstrip_append:
  "rev (dropWhile P (rev (xs @ ys))) =
     (if \<forall>y \<in> set ys. P y then rev (dropWhile P (rev xs)) else xs @ rev (dropWhile P (rev ys)))"
  by (simp add: dropWhile_append)

lemma rstrip_eq_Nil: "(rev (dropWhile P (rev xs)) = []) = (\<forall>x \<in> set xs. P x)"
  by simp

lemma join_Cons: "join sep (w # ws) = (if ws = [] then w else w @ sep @ join sep ws)"
  by (cases ws) simp_all

lemma join_eq_Nil: "[] \<notin> set ws \<Longrightarrow> (join sep ws = []) = (ws = [])"
  by (induction sep ws rule: join.induct) auto

lemma split_words_nonempty: "[] \<notin> set (split_words t)"
  by (induction t rule: split_words.induct) auto

lemma split_words_no_separator: "w \<in> set (split_words t) \<Longrightarrow> x \<in> set w \<Longrightarrow> \<not> is_separator x"
  by (induction t rule: split_words.induct) (auto split: if_splits dest: set_takeWhileD)

lemma hyphen_after_spaces:
  "dropWhile is_hyphen (sub_runs is_space ''-'' t) =
   sub_runs is_space ''-'' (dropWhile is_separator t)"
proof (induction is_space "''-''" t rule: sub_runs.induct)
  case 1
  then show ?case by simp
next
  case (2 c cs)
  show ?case
  proof (cases "is_space c")
    case True
    have "dropWhile is_separator (dropWhile is_space cs) = dropWhile is_separator cs"
      by (rule dropWhile_dropWhile_weaker) (simp add: is_separator_def)
    then show ?thesis using 2(1)[OF True] True by (simp add: is_separator_def is_hyphen_def)
  next
    case False
    then show ?thesis using 2(2)[OF False] by (simp add: is_separator_def is_hyphen_def)
  qed
qed

lemma sub_runs_separator:
  "sub_runs is_hyphen ''-'' (sub_runs is_space ''-'' f) = sub_runs is_separator ''-'' f"
proof (induction is_separator "''-''" f rule: sub_runs.induct)
  case 1
  then show ?case by simp
next
  case (2 c cs)
  show ?case
  proof (cases "is_separator c")
    case True
    note ih = 2(1)[OF True]
    show ?thesis
    proof (cases "is_space c")
      case sp: True
      have d: "dropWhile is_separator (dropWhile is_space cs) = dropWhile is_separator cs"
        by (rule dropWhile_dropWhile_weaker) (simp add: is_separator_def)
      have "sub_runs is_hyphen ''-'' (sub_runs is_space ''-'' (c # cs)) =
            CHR ''-'' # sub_runs is_hyphen ''-''
              (dropWhile is_hyphen (sub_runs is_space ''-'' (dropWhile is_space cs)))"
        using sp by (simp add: is_hyphen_def)
      also have "\<dots> = CHR ''-'' # sub_runs is_hyphen ''-''
              (sub_runs is_space ''-'' (dropWhile is_separator cs))"
        by (simp only: hyphen_after_spaces d)
      also have "\<dots> = sub_runs is_separator ''-'' (c # cs)"
        using True ih by simp
      finally show ?thesis .
    next
      case nsp: False
      then have h: "is_hyphen c" using True by (simp add: is_separator_def)
      have "sub_runs is_hyphen ''-'' (sub_runs is_space ''-'' (c # cs)) =
            CHR ''-'' # sub_runs is_hyphen ''-''
              (dropWhile is_hyphen (sub_runs is_space ''-'' cs))"
        using nsp h by simp
      also have "\<dots> = CHR ''-'' # sub_runs is_hyphen ''-''
              (sub_runs is_space ''-'' (dropWhile is_separator cs))"
        by (simp only: hyphen_after_spaces)
      also have "\<dots> = sub_runs is_separator ''-'' (c # cs)"
        using True ih by simp
      finally show ?thesis .
    qed
  next
    case False
    then show ?thesis using 2(2)[OF False] by (simp add: is_separator_def)
  qed
qed

lemma sub_runs_no_leading_hyphen:
  "dropWhile is_hyphen (sub_runs is_separator ''-'' (dropWhile is_separator xs)) =
   sub_runs is_separator ''-'' (dropWhile is_separator xs)"
proof (cases "dropWhile is_separator xs")
  case Nil
  show ?thesis unfolding Nil by simp
next
  case (Cons d ds)
  then have "\<not> is_separator d"
    using hd_dropWhile[of is_separator xs] by (metis list.sel(1) list.simps(3))
  then show ?thesis unfolding Cons by (simp add: is_separator_def)
qed

lemma lstrip_separator:
  "dropWhile is_hyphen (sub_runs is_separator ''-'' f) =
   sub_runs is_separator ''-'' (dropWhile is_separator f)"
proof (cases f)
  case Nil
  then show ?thesis by simp
next
  case (Cons c cs)
  show ?thesis
  proof (cases "is_separator c")
    case True
    then show ?thesis
      unfolding Cons using sub_runs_no_leading_hyphen[of cs] by (simp add: is_hyphen_def)
  next
    case False
    then show ?thesis unfolding Cons by (simp add: is_separator_def)
  qed
qed

lemma split_words_lstrip: "split_words (dropWhile is_separator f) = split_words f"
  by (induction f) simp_all

lemma rstrip_words:
  "rev (dropWhile is_hyphen (rev (sub_runs is_separator ''-'' (dropWhile is_separator t)))) =
   join ''-'' (split_words t)"
proof (induction t rule: split_words.induct)
  case 1
  then show ?case by simp
next
  case (2 c cs)
  show ?case
  proof (cases "is_separator c")
    case True
    then show ?thesis using 2(1)[OF True] by simp
  next
    case False
    define w where "w = c # takeWhile (\<lambda>x. \<not> is_separator x) cs"
    define rest where "rest = dropWhile (\<lambda>x. \<not> is_separator x) cs"
    define Z where "Z = sub_runs is_separator ''-'' (dropWhile is_separator rest)"
    have ih: "rev (dropWhile is_hyphen (rev Z)) = join ''-'' (split_words rest)"
      using 2(2)[OF False] by (simp only: Z_def rest_def)
    have w: "\<forall>x \<in> set w. \<not> is_separator x"
      unfolding w_def using False by (auto dest: set_takeWhileD)
    have wh: "\<forall>x \<in> set w. \<not> is_hyphen x"
      using w by (simp add: is_separator_def)
    have "dropWhile is_separator (c # cs) = w @ rest"
      using False by (simp add: w_def rest_def)
    then have l: "sub_runs is_separator ''-'' (dropWhile is_separator (c # cs)) =
                  w @ sub_runs is_separator ''-'' rest"
      by (simp only: sub_runs_append_keep[OF w])
    have r: "split_words (c # cs) = w # split_words rest"
      using False by (simp add: w_def rest_def)
    have ww: "rev (dropWhile is_hyphen (rev w)) = w"
      by (rule rstrip_keep[OF wh])
    show ?thesis
    proof (cases rest)
      case Nil
      have "sub_runs is_separator ''-'' rest = []" unfolding Nil by simp
      then show ?thesis unfolding l r by (simp add: ww Nil)
    next
      case (Cons d ds)
      have "rest \<noteq> []" by (simp add: Cons)
      then have "\<not> \<not> is_separator (hd rest)"
        unfolding rest_def by (rule hd_dropWhile)
      then have sd: "is_separator d" by (simp add: Cons)
      have z: "sub_runs is_separator ''-'' rest = ''-'' @ Z"
        unfolding Z_def Cons using sd by simp
      have "(\<forall>y \<in> set Z. is_hyphen y) = (rev (dropWhile is_hyphen (rev Z)) = [])"
        by simp
      also have "\<dots> = (join ''-'' (split_words rest) = [])"
        by (simp only: ih)
      also have "\<dots> = (split_words rest = [])"
        by (rule join_eq_Nil[OF split_words_nonempty])
      finally have e: "(\<forall>y \<in> set Z. is_hyphen y) = (split_words rest = [])" .
      have a1: "rev (dropWhile is_hyphen (rev (w @ (''-'' @ Z)))) =
            (if \<forall>y \<in> set (''-'' @ Z). is_hyphen y then w
             else w @ rev (dropWhile is_hyphen (rev (''-'' @ Z))))"
        by (simp only: rstrip_append[of is_hyphen w "''-'' @ Z"] ww)
      have a2: "rev (dropWhile is_hyphen (rev (''-'' @ Z))) =
            (if \<forall>y \<in> set Z. is_hyphen y then rev (dropWhile is_hyphen (rev ''-''))
             else ''-'' @ rev (dropWhile is_hyphen (rev Z)))"
        by (rule rstrip_append)
      have a3: "(\<forall>y \<in> set (''-'' @ Z). is_hyphen y) = (\<forall>y \<in> set Z. is_hyphen y)"
        by (simp add: is_hyphen_def)
      show ?thesis
      proof (cases "split_words rest = []")
        case True
        then have "\<forall>y \<in> set Z. is_hyphen y" using e by simp
        then have "rev (dropWhile is_hyphen (rev (w @ (''-'' @ Z)))) = w"
          using a1 a3 by simp
        then show ?thesis unfolding l r z by (simp only: True join.simps)
      next
        case False
        then have n: "\<not> (\<forall>y \<in> set Z. is_hyphen y)" using e by simp
        have "rev (dropWhile is_hyphen (rev (''-'' @ Z))) = ''-'' @ join ''-'' (split_words rest)"
          using a2 n ih by simp
        moreover have "rev (dropWhile is_hyphen (rev (w @ (''-'' @ Z)))) =
              w @ rev (dropWhile is_hyphen (rev (''-'' @ Z)))"
          using a1 a3 n by simp
        ultimately have "rev (dropWhile is_hyphen (rev (w @ (''-'' @ Z)))) =
              w @ ''-'' @ join ''-'' (split_words rest)"
          by simp
        then show ?thesis unfolding l r z using False by (simp only: join_Cons if_False)
      qed
    qed
  qed
qed

lemma sanitize_words_stripped:
  "sanitize_tag_for_hashnode tag =
     join ''-'' (split_words (filter hashnode_tag_char (strip (lower tag))))"
proof -
  have k: "(\<lambda>c. is_ascii_alnum c \<or> is_space c \<or> is_hyphen c) = hashnode_tag_char"
    by (simp add: fun_eq_iff hashnode_tag_char_def)
  show ?thesis
    unfolding sanitize_tag_for_hashnode_def strip_chars_def k
    by (simp only: sub_runs_separator lstrip_separator rstrip_words split_words_lstrip)
qed

lemma split_words_separators: "\<forall>c \<in> set sp. is_separator c \<Longrightarrow> split_words sp = []"
  by (induction sp) simp_all

lemma split_words_append_separators:
  "\<forall>c \<in> set sp. is_separator c \<Longrightarrow> split_words (x @ sp) = split_words x"
proof (induction x rule: split_words.induct)
  case 1
  then show ?case by (simp add: split_words_separators)
next
  case (2 c cs)
  show ?case
  proof (cases "is_separator c")
    case True
    then show ?thesis using 2(1)[OF True 2(3)] by simp
  next
    case False
    note ih = 2(2)[OF False 2(3)]
    show ?thesis
    proof (cases "\<forall>x \<in> set cs. \<not> is_separator x")
      case all: True
      have t: "takeWhile (\<lambda>x. \<not> is_separator x) sp = []"
        using 2(3) by (cases sp) simp_all
      have d: "dropWhile (\<lambda>x. \<not> is_separator x) sp = sp"
        using 2(3) by (cases sp) simp_all
      have t1: "takeWhile (\<lambda>x. \<not> is_separator x) (cs @ sp) = cs"
        using all t by (simp add: takeWhile_append)
      have d1: "dropWhile (\<lambda>x. \<not> is_separator x) (cs @ sp) = sp"
        using all d by (simp add: dropWhile_append)
      have t2: "takeWhile (\<lambda>x. \<not> is_separator x) cs = cs" using all by simp
      have d2: "dropWhile (\<lambda>x. \<not> is_separator x) cs = []" using all by simp
      have "split_words ((c # cs) @ sp) = [c # cs]"
        using False by (simp add: t1 d1 split_words_separators[OF 2(3)])
      moreover have "split_words (c # cs) = [c # cs]"
        using False by (simp add: t2 d2)
      ultimately show ?thesis by simp
    next
      case some: False
      then obtain y where y: "y \<in> set cs" "\<not> \<not> is_separator y" by blast
      have t1: "takeWhile (\<lambda>x. \<not> is_separator x) (cs @ sp) =
                 takeWhile (\<lambda>x. \<not> is_separator x) cs"
        using y by (rule takeWhile_append1)
      have d1: "dropWhile (\<lambda>x. \<not> is_separator x) (cs @ sp) =
                 dropWhile (\<lambda>x. \<not> is_separator x) cs @ sp"
        using y by (rule dropWhile_append1)
      show ?thesis using False ih by (simp add: t1 d1)
    qed
  qed
qed

lemma split_words_filter_lstrip:
  "split_words (filter hashnode_tag_char (dropWhile is_space s)) =
   split_words (filter hashnode_tag_char s)"
  by (induction s) (simp_all add: hashnode_tag_char_def is_separator_def)

lemma split_words_filter_rstrip:
  "split_words (filter hashnode_tag_char (rev (dropWhile is_space (rev s)))) =
   split_words (filter hashnode_tag_char s)"
proof -
  define sp where "sp = rev (takeWhile is_space (rev s))"
  have s: "s = rev (dropWhile is_space (rev s)) @ sp"
    unfolding sp_def by (simp flip: rev_append)
  have "\<forall>c \<in> set sp. is_space c"
    unfolding sp_def by (auto dest: set_takeWhileD)
  then have "\<forall>c \<in> set (filter hashnode_tag_char sp). is_separator c"
    by (simp add: is_separator_def)
  then have "split_words (filter hashnode_tag_char (rev (dropWhile is_space (rev s))) @
                          filter hashnode_tag_char sp) =
             split_words (filter hashnode_tag_char (rev (dropWhile is_space (rev s))))"
    by (rule split_words_append_separators)
  then show ?thesis
    by (simp only: filter_append[symmetric] s[symmetric])
qed

lemma sanitize_words: "sanitize_tag_for_hashnode tag = hyphenated tag"
  unfolding hyphenated_def sanitize_words_stripped strip_def strip_chars_def
  by (simp only: split_words_filter_rstrip split_words_filter_lstrip)

lemma filter_takeWhile_same: "filter P (takeWhile P xs) = takeWhile P xs"
  by (induction xs) simp_all

lemma concat_split_words: "concat (split_words t) = filter (\<lambda>x. \<not> is_separator x) t"
proof (induction t rule: split_words.induct)
  case 1
  then show ?case by simp
next
  case (2 c cs)
  show ?case
  proof (cases "is_separator c")
    case True
    then show ?thesis using 2(1)[OF True] by simp
  next
    case False
    have "filter (\<lambda>x. \<not> is_separator x) cs =
          filter (\<lambda>x. \<not> is_separator x)
            (takeWhile (\<lambda>x. \<not> is_separator x) cs @ dropWhile (\<lambda>x. \<not> is_separator x) cs)"
      by simp
    also have "\<dots> = takeWhile (\<lambda>x. \<not> is_separator x) cs @
                 filter (\<lambda>x. \<not> is_separator x) (dropWhile (\<lambda>x. \<not> is_separator x) cs)"
      by (simp only: filter_append filter_takeWhile_same)
    finally show ?thesis using False 2(2)[OF False] by simp
  qed
qed

lemma filter_join_words:
  "\<forall>w \<in> set ws. \<forall>x \<in> set w. \<not> is_hyphen x \<Longrightarrow>
   filter (\<lambda>x. \<not> is_hyphen x) (join ''-'' ws) = concat ws"
  by (induction "''-''" ws rule: join.induct) (simp_all add: is_hyphen_def)

lemma alnum_not_separator: "is_ascii_alnum c \<Longrightarrow> \<not> is_separator c"
  by (auto simp: is_ascii_alnum_def is_separator_def is_space_def is_hyphen_def Let_def)

lemma hyphenated_letters:
  "filter (\<lambda>x. \<not> is_hyphen x) (hyphenated tag) = filter is_ascii_alnum (lower tag)"
proof -
  let ?f = "filter hashnode_tag_char (lower tag)"
  have "\<forall>w \<in> set (split_words ?f). \<forall>x \<in> set w. \<not> is_hyphen x"
    using split_words_no_separator by (auto simp: is_separator_def)
  then have "filter (\<lambda>x. \<not> is_hyphen x) (hyphenated tag) = concat (split_words ?f)"
    unfolding hyphenated_def by (rule filter_join_words)
  also have "\<dots> = filter (\<lambda>x. \<not> is_separator x \<and> hashnode_tag_char x) (lower tag)"
    by (simp add: concat_split_words conj_commute)
  also have "(\<lambda>x. \<not> is_separator x \<and> hashnode_tag_char x) = is_ascii_alnum"
    using alnum_not_separator by (auto simp: fun_eq_iff hashnode_tag_char_def is_separator_def)
  finally show ?thesis .
qed

lemma split_on_no_separator: "sep \<notin> set s \<Longrightarrow> split_on sep s = [s]"
  by (induction s) auto

lemma split_comma_tags_pieces:
  "filter (\<lambda>t. t \<noteq> []) (split_comma_tags ts) = tag_pieces ts"
  by (induction ts) (simp_all add: split_comma_tags_def tag_pieces_def split_on_no_separator)

section \<open>Properties of the content processor\<close>

text \<open>
  Claim C4. The normalization strips a leading front-matter block: the text
  \<^verbatim>\<open>"---\na: 1\n---\nBody"\<close> normalizes to the normalization of \<^verbatim>\<open>"Body"\<close>, which holds no
  \<^verbatim>\<open>---\<close>. It is not idempotent: the attribute is removed after the text has been trimmed
  and its whitespace collapsed, so \<^verbatim>\<open>align="center" Intro\<close> normalizes to \<^verbatim>\<open>" Intro"\<close>, with
  the blank that followed the attribute in front, and a second pass trims that to
  \<^verbatim>\<open>"Intro"\<close>.
\<close>

theorem normalize_not_idempotent:
  "normalize_content_for_comparison leading_align_example = '' Intro''
   \<and> normalize_content_for_comparison (normalize_content_for_comparison leading_align_example) =
       ''Intro''
   \<and> normalize_content_for_comparison (normalize_content_for_comparison leading_align_example) \<noteq>
       normalize_content_for_comparison leading_align_example
   \<and> normalize_content_for_comparison frontmatter_example =
       normalize_content_for_comparison ''Body''
   \<and> \<not> sublist ''---'' (normalize_content_for_comparison frontmatter_example)"
  by code_simp

lemma convert_hashnode:
  "lower pf = ''hashnode'' \<Longrightarrow>
   convert_tags_for_platform ts pf =
     map sanitize_tag_for_hashnode (filter (\<lambda>t. t \<noteq> []) (split_comma_tags ts))"
  by (cases ts) (simp_all add: convert_tags_for_platform_def split_comma_tags_def)

text \<open>
  Claim C9, as amended. For the Hashnode policy the conversion cuts every tag at its
  commas, trims the pieces and drops the empty ones, and returns one converted tag for
  every piece that is left, in order. The converted tag is the piece in lower case,
  without the characters that are no ASCII letter, digit, whitespace or hyphen, with its
  maximal runs of letters and digits joined by single hyphens: every run of whitespace
  and hyphens between two of them becomes one hyphen, and those at the ends vanish. So
  the letters and digits of the lower-cased tag are kept, in their order, and they are
  all that is left once the hyphens are taken out; the converted tag is made of a-z, 0-9
  and the hyphen, holds no two hyphens in a row and neither starts nor ends with one.
  The result has as many tags as there are pieces, whatever their number: the conversion
  applies no maximum, and a list of non-blank tags without commas keeps its length. The
  tags \<^verbatim>\<open>["C++", "Node.js", "Web Development"]\<close> become
  \<^verbatim>\<open>["c", "nodejs", "web-development"]\<close>.
\<close>

theorem hashnode_tags_sanitized_not_capped:
  assumes "lower pf = ''hashnode''"
  shows "convert_tags_for_platform ts pf = map hyphenated (tag_pieces ts)
       \<and> sanitize_tag_for_hashnode tag = hyphenated tag
       \<and> filter (\<lambda>c. \<not> is_hyphen c) (hyphenated tag) = filter is_ascii_alnum (lower tag)
       \<and> (\<forall>t \<in> set (convert_tags_for_platform ts pf).
            (\<forall>c \<in> set t. is_lower_alnum c \<or> c = CHR ''-'') \<and>
            \<not> sublist ''--'' t \<and>
            (t = [] \<or> (hd t \<noteq> CHR ''-'' \<and> last t \<noteq> CHR ''-'')))
       \<and> length (convert_tags_for_platform ts pf) = length (tag_pieces ts)
       \<and> ((\<forall>t \<in> set ts. CHR '','' \<notin> set t \<and> strip t \<noteq> []) \<longrightarrow>
            length (convert_tags_for_platform ts pf) = length ts)
       \<and> convert_tags_for_platform [''C++'', ''Node.js'', ''Web Development''] pf =
           [''c'', ''nodejs'', ''web-development'']"
proof (intro conjI ballI impI)
  show c: "convert_tags_for_platform ts pf = map hyphenated (tag_pieces ts)"
    by (simp add: convert_hashnode[OF assms] split_comma_tags_pieces sanitize_words)
  show "sanitize_tag_for_hashnode tag = hyphenated tag"
    by (rule sanitize_words)
  show "filter (\<lambda>c. \<not> is_hyphen c) (hyphenated tag) = filter is_ascii_alnum (lower tag)"
    by (rule hyphenated_letters)
  show "length (convert_tags_for_platform ts pf) = length (tag_pieces ts)"
    by (simp add: c)
next
  fix t assume "t \<in> set (convert_tags_for_platform ts pf)"
  then obtain u where t: "t = sanitize_tag_for_hashnode u"
    using convert_hashnode[OF assms] by auto
  show "\<not> sublist ''--'' t" unfolding t by (rule sanitize_no_double_hyphen)
  show "t = [] \<or> (hd t \<noteq> CHR ''-'' \<and> last t \<noteq> CHR ''-'')"
    unfolding t by (rule sanitize_ends)
  fix c assume "c \<in> set t"
  then show "is_lower_alnum c \<or> c = CHR ''-''" unfolding t by (rule sanitize_chars)
next
  assume "\<forall>t \<in> set ts. CHR '','' \<notin> set t \<and> strip t \<noteq> []"
  then show "length (convert_tags_for_platform ts pf) = length ts"
    by (simp add: convert_hashnode[OF assms] split_comma_tags_plain)
next
  have "map sanitize_tag_for_hashnode (filter (\<lambda>t. t \<noteq> [])
          (split_comma_tags [''C++'', ''Node.js'', ''Web Development''])) =
        [''c'', ''nodejs'', ''web-development'']"
    by code_simp
  then show "convert_tags_for_platform [''C++'', ''Node.js'', ''Web Development''] pf =
           [''c'', ''nodejs'', ''web-development'']"
    by (simp add: convert_hashnode[OF assms])
qed

text \<open>
  The example of the specification, six tags that stay six, tags with commas and empty
  pieces, and a tag with runs of separators.
\<close>

theorem hashnode_tags_sanitized_not_capped_witness:
  "convert_tags_for_platform [''C++'', ''Node.js'', ''Web Development''] ''Hashnode'' =
     [''c'', ''nodejs'', ''web-development'']
   \<and> length (convert_tags_for_platform six_tags ''Hashnode'') = 6
   \<and> convert_tags_for_platform messy_tags ''Hashnode'' = [''web-development'', ''c'', ''nodejs'']
   \<and> sanitize_tag_for_hashnode ''  R2-D2 &  C-3PO - '' = ''r2-d2-c-3po''
   \<and> \<not> sublist ''--'' (sanitize_tag_for_hashnode ''Web -- Development'')"
proof -
  have p: "lower ''Hashnode'' = ''hashnode''" by code_simp
  have h: "\<forall>t \<in> set six_tags. CHR '','' \<notin> set t \<and> strip t \<noteq> []" by code_simp
  have l: "length six_tags = 6" by (simp add: six_tags_def)
  have m: "sanitize_tag_for_hashnode ''Web -- Development'' \<in>
           set (convert_tags_for_platform [''Web -- Development''] ''Hashnode'')"
    by (simp add: convert_hashnode[OF p]) code_simp
  have q: "map hyphenated (tag_pieces messy_tags) = [''web-development'', ''c'', ''nodejs'']"
    by code_simp
  have r: "hyphenated ''  R2-D2 &  C-3PO - '' = ''r2-d2-c-3po''"
    by code_simp
  note t1 = hashnode_tags_sanitized_not_capped[OF p, of six_tags "[]"]
  have e1: "convert_tags_for_platform [''C++'', ''Node.js'', ''Web Development''] ''Hashnode'' =
     [''c'', ''nodejs'', ''web-development'']"
    using t1 by (elim conjE)
  have "length (convert_tags_for_platform six_tags ''Hashnode'') = length six_tags"
    using t1 h by blast
  then have e2: "length (convert_tags_for_platform six_tags ''Hashnode'') = 6"
    by (simp only: l)
  note 1 = conjI[OF e1 e2]
  from hashnode_tags_sanitized_not_capped[OF p, of "[''Web -- Development'']" "[]"] m
  have 2: "\<not> sublist ''--'' (sanitize_tag_for_hashnode ''Web -- Development'')"
    by blast
  note t3 = hashnode_tags_sanitized_not_capped[OF p, of messy_tags "''  R2-D2 &  C-3PO - ''"]
  have "convert_tags_for_platform messy_tags ''Hashnode'' = map hyphenated (tag_pieces messy_tags)"
    using t3 by (elim conjE)
  then have e3: "convert_tags_for_platform messy_tags ''Hashnode'' =
      [''web-development'', ''c'', ''nodejs'']"
    by (simp only: q)
  have "sanitize_tag_for_hashnode ''  R2-D2 &  C-3PO - '' = hyphenated ''  R2-D2 &  C-3PO - ''"
    using t3 by (elim conjE)
  then have e4: "sanitize_tag_for_hashnode ''  R2-D2 &  C-3PO - '' = ''r2-d2-c-3po''"
    by (simp only: r)
  note 3 = conjI[OF e3 e4]
  from 1 2 3 show ?thesis by blast
qed

text \<open>
  Claim C9 as stated fails: six tags are converted to six tags, more than the five the
  Hashnode client sends.
\<close>

theorem hashnode_tag_cap_counterexample:
  "convert_tags_for_platform six_tags ''hashnode'' = six_tags
   \<and> \<not> length (convert_tags_for_platform six_tags ''hashnode'') \<le> hashnode_max_tags"
  by code_simp

section \<open>Properties of the publication manager\<close>

lemma call_get_article_eq:
  "get_article client i p (world st) = (r, w) \<Longrightarrow>
   call_get_article client pn i p st = (r, \<lparr>world = w, trace = trace st @ [(pn, GetArticle i p)]\<rparr>)"
  by (simp add: call_get_article_def)

lemma call_find_eq:
  "find_article_by_title client t (world st) = (r, w) \<Longrightarrow>
   call_find_article_by_title client pn t st =
     (r, \<lparr>world = w, trace = trace st @ [(pn, FindArticleByTitle t)]\<rparr>)"
  by (simp add: call_find_article_by_title_def)

lemma needs_update_except_trace: "trace (snd (needs_update_except e st)) = trace st"
  by (simp add: needs_update_except_def)

lemma needs_update_trace:
  "\<exists>extra. trace (snd (needs_update pc i client pn st)) = trace st @ extra \<and>
     (\<forall>c \<in> set extra. \<not> is_mutation (snd c))"
proof -
  obtain r1 w1 where g1: "get_article client i True (world st) = (r1, w1)"
    by (cases "get_article client i True (world st)")
  let ?st1 = "\<lparr>world = w1, trace = trace st @ [(pn, GetArticle i True)]\<rparr>"
  obtain r2 w2 where g2: "get_article client i False (world ?st1) = (r2, w2)"
    by (cases "get_article client i False (world ?st1)")
  let ?st2 = "\<lparr>world = w2, trace = trace ?st1 @ [(pn, GetArticle i False)]\<rparr>"
  have c1: "call_get_article client pn i True st = (r1, ?st1)"
    using g1 by (rule call_get_article_eq)
  have c2: "call_get_article client pn i False ?st1 = (r2, ?st2)"
    using g2 by (rule call_get_article_eq)
  have "trace (snd (needs_update pc i client pn st)) = trace st @ [(pn, GetArticle i True)]
      \<or> trace (snd (needs_update pc i client pn st)) =
          trace st @ [(pn, GetArticle i True), (pn, GetArticle i False)]"
    by (simp add: needs_update_def c1 c2 needs_update_except_def
             split: sum.splits option.splits)
  then show ?thesis
  proof
    assume a: "trace (snd (needs_update pc i client pn st)) = trace st @ [(pn, GetArticle i True)]"
    show ?thesis by (rule exI[of _ "[(pn, GetArticle i True)]"]) (simp add: a)
  next
    assume a: "trace (snd (needs_update pc i client pn st)) =
          trace st @ [(pn, GetArticle i True), (pn, GetArticle i False)]"
    show ?thesis
      by (rule exI[of _ "[(pn, GetArticle i True), (pn, GetArticle i False)]"]) (simp add: a)
  qed
qed

text \<open>
  Claim C6. \<^verbatim>\<open>_needs_update\<close> first calls \<^verbatim>\<open>get_article\<close> with \<^verbatim>\<open>published = True\<close>. It makes a
  second call, with \<^verbatim>\<open>published = False\<close>, exactly when the first call returned no article
  (\<^verbatim>\<open>None\<close> or an empty dictionary); when the first call returned an article or raised,
  there is no second call. If neither call returns an article, the answer is \<^verbatim>\<open>True\<close>.
\<close>

theorem needs_update_fetch_order:
  assumes g1: "get_article client i True (world st) = (r1, w1)"
  shows "(\<exists>extra. trace (snd (needs_update pc i client pn st)) =
                  trace st @ (pn, GetArticle i True) # extra)
    \<and> ((\<exists>a. r1 = Inr a \<and> fetched a = None) \<longrightarrow>
          trace (snd (needs_update pc i client pn st)) =
            trace st @ [(pn, GetArticle i True), (pn, GetArticle i False)])
    \<and> (\<not> (\<exists>a. r1 = Inr a \<and> fetched a = None) \<longrightarrow>
          trace (snd (needs_update pc i client pn st)) = trace st @ [(pn, GetArticle i True)])
    \<and> (\<forall>a1 a2 w2. r1 = Inr a1 \<and> fetched a1 = None \<and>
          get_article client i False w1 = (Inr a2, w2) \<and> fetched a2 = None \<longrightarrow>
          needs_update pc i client pn st =
            (Inr True, \<lparr>world = w2,
                        trace = trace st @ [(pn, GetArticle i True), (pn, GetArticle i False)]\<rparr>))"
proof -
  let ?st1 = "\<lparr>world = w1, trace = trace st @ [(pn, GetArticle i True)]\<rparr>"
  obtain r2 w2 where g2: "get_article client i False (world ?st1) = (r2, w2)"
    by (cases "get_article client i False (world ?st1)")
  let ?st2 = "\<lparr>world = w2, trace = trace ?st1 @ [(pn, GetArticle i False)]\<rparr>"
  have c1: "call_get_article client pn i True st = (r1, ?st1)"
    using g1 by (rule call_get_article_eq)
  have c2: "call_get_article client pn i False ?st1 = (r2, ?st2)"
    using g2 by (rule call_get_article_eq)
  have second: "(\<exists>a. r1 = Inr a \<and> fetched a = None) \<Longrightarrow>
      trace (snd (needs_update pc i client pn st)) =
        trace st @ [(pn, GetArticle i True), (pn, GetArticle i False)]"
    by (auto simp: needs_update_def c1 c2 needs_update_except_def split: sum.splits option.splits)
  have first: "\<not> (\<exists>a. r1 = Inr a \<and> fetched a = None) \<Longrightarrow>
      trace (snd (needs_update pc i client pn st)) = trace st @ [(pn, GetArticle i True)]"
    by (cases r1) (auto simp: needs_update_def c1 needs_update_except_def split: option.splits)
  have neither: "\<And>a1 a2 w2'. r1 = Inr a1 \<and> fetched a1 = None \<and>
          get_article client i False w1 = (Inr a2, w2') \<and> fetched a2 = None \<Longrightarrow>
          needs_update pc i client pn st =
            (Inr True, \<lparr>world = w2',
                        trace = trace st @ [(pn, GetArticle i True), (pn, GetArticle i False)]\<rparr>)"
    using g2 by (auto simp: needs_update_def c1 c2)
  have start: "\<exists>extra. trace (snd (needs_update pc i client pn st)) =
                  trace st @ (pn, GetArticle i True) # extra"
  proof (cases "\<exists>a. r1 = Inr a \<and> fetched a = None")
    case True
    show ?thesis by (rule exI[of _ "[(pn, GetArticle i False)]"]) (simp add: second[OF True])
  next
    case False
    show ?thesis by (rule exI[of _ "[]"]) (simp add: first[OF False])
  qed
  show ?thesis using start second first neither by blast
qed

text \<open>An identifier the mock client does not know: two fetches, then \<^verbatim>\<open>True\<close>.\<close>

theorem needs_update_fetch_order_witness:
  "needs_update test_post_content ''7'' (mock_client ''devto'' False) ''devto'' stored_world =
     (Inr True,
      \<lparr>world = world stored_world,
        trace = [(''devto'', GetArticle ''7'' True), (''devto'', GetArticle ''7'' False)]\<rparr>)"
proof -
  have g: "get_article (mock_client ''devto'' False) ''7'' True (world stored_world) =
             (Inr None, world stored_world)"
    "get_article (mock_client ''devto'' False) ''7'' False (world stored_world) =
             (Inr None, world stored_world)"
    by code_simp+
  have t: "trace stored_world = []" by (simp add: stored_world_def)
  from needs_update_fetch_order[OF g(1), of test_post_content "''devto''"] g(2)
  have "needs_update test_post_content ''7'' (mock_client ''devto'' False) ''devto''
          stored_world =
        (Inr True,
         \<lparr>world = world stored_world,
           trace = trace stored_world @
             [(''devto'', GetArticle ''7'' True), (''devto'', GetArticle ''7'' False)]\<rparr>)"
    by simp
  then show ?thesis by (simp add: t)
qed


lemma bool_eq_PBool: "bool_eq b (PBool r) = (b = r)"
  by (auto simp: bool_eq_def)

lemma set_map_PStr: "(PStr ` A = PStr ` B) = (A = B)"
  by (simp add: inj_image_eq_iff inj_def)

lemma hashable_PStr: "list_all hashable (map PStr xs)"
  by (induction xs) auto

lemma changes_detected_typed:
  assumes "dict_get article ''title'' (PStr []) = PStr rtitle"
    and "dict_get article ''body_markdown'' (PStr []) = PStr rbody"
    and "existing_tags_of (dict_get article ''tags'' (PList [])) = map PStr rtags"
    and "dict_get article ''published'' (PBool False) = PBool rpublished"
    and "dict_get article ''cover_image'' (PStr []) = PStr rcover"
  shows "changes_detected pc article =
     (title pc \<noteq> rtitle \<or>
      normalize_content_for_comparison (body_markdown pc) \<noteq>
        normalize_content_for_comparison rbody \<or>
      set (tags pc) \<noteq> set rtags \<or>
      (\<not> save_as_draft pc) \<noteq> rpublished \<or>
      cover pc \<noteq> rcover)"
  unfolding changes_detected_def assms Let_def
  by (simp add: hashable_PStr set_map_PStr bool_eq_PBool)

lemma needs_update_first_fetch:
  assumes "get_article client i True (world st) = (Inr (Some article), w1)" "article \<noteq> []"
  shows "needs_update pc i client pn st =
     (Inr (changes_detected pc article),
      \<lparr>world = w1, trace = trace st @ [(pn, GetArticle i True)]\<rparr>)"
  using assms by (simp add: needs_update_def call_get_article_eq[OF assms(1)])

lemma needs_update_second_fetch:
  assumes "get_article client i True (world st) = (Inr a, w0)" "fetched a = None"
    "get_article client i False w0 = (Inr (Some article), w1)" "article \<noteq> []"
  shows "needs_update pc i client pn st =
     (Inr (changes_detected pc article),
      \<lparr>world = w1, trace = trace st @ [(pn, GetArticle i True), (pn, GetArticle i False)]\<rparr>)"
proof -
  let ?st1 = "\<lparr>world = w0, trace = trace st @ [(pn, GetArticle i True)]\<rparr>"
  have c1: "call_get_article client pn i True st = (Inr a, ?st1)"
    using assms(1) by (rule call_get_article_eq)
  have "get_article client i False (world ?st1) = (Inr (Some article), w1)"
    using assms(3) by simp
  then have c2: "call_get_article client pn i False ?st1 =
      (Inr (Some article), \<lparr>world = w1, trace = trace ?st1 @ [(pn, GetArticle i False)]\<rparr>)"
    by (rule call_get_article_eq)
  show ?thesis
    using assms(2,4) by (simp add: needs_update_def c1 c2)
qed

text \<open>
  Claim C3. When the remote article has been fetched (by the first call, or by the second
  after the first returned none) and its fields are of the types of the data model, the
  answer of \<^verbatim>\<open>_needs_update\<close> is the disjunction of five comparisons: the titles differ as
  strings, the normalized bodies differ, the tags differ as sets, \<^verbatim>\<open>not save_as_draft\<close>
  differs from the remote published flag, the cover images differ as strings. So with
  four of them equal the answer is whether the fifth differs.
\<close>

theorem needs_update_five_predicates:
  assumes fetch:
      "(get_article client i True (world st) = (Inr (Some article), w1) \<and> article \<noteq> []) \<or>
       (\<exists>a w0. get_article client i True (world st) = (Inr a, w0) \<and> fetched a = None \<and>
                get_article client i False w0 = (Inr (Some article), w1) \<and> article \<noteq> [])"
    and typed:
      "dict_get article ''title'' (PStr []) = PStr rtitle"
      "dict_get article ''body_markdown'' (PStr []) = PStr rbody"
      "existing_tags_of (dict_get article ''tags'' (PList [])) = map PStr rtags"
      "dict_get article ''published'' (PBool False) = PBool rpublished"
      "dict_get article ''cover_image'' (PStr []) = PStr rcover"
  shows "fst (needs_update pc i client pn st) =
     Inr (title pc \<noteq> rtitle \<or>
          normalize_content_for_comparison (body_markdown pc) \<noteq>
            normalize_content_for_comparison rbody \<or>
          set (tags pc) \<noteq> set rtags \<or>
          (\<not> save_as_draft pc) \<noteq> rpublished \<or>
          cover pc \<noteq> rcover)"
proof -
  have "fst (needs_update pc i client pn st) = Inr (changes_detected pc article)"
    using fetch
  proof
    assume "get_article client i True (world st) = (Inr (Some article), w1) \<and> article \<noteq> []"
    then show ?thesis by (simp add: needs_update_first_fetch)
  next
    assume "\<exists>a w0. get_article client i True (world st) = (Inr a, w0) \<and> fetched a = None \<and>
                get_article client i False w0 = (Inr (Some article), w1) \<and> article \<noteq> []"
    then obtain a w0 where "get_article client i True (world st) = (Inr a, w0)"
      "fetched a = None" "get_article client i False w0 = (Inr (Some article), w1)"
      "article \<noteq> []" by blast
    then show ?thesis by (simp add: needs_update_second_fetch)
  qed
  then show ?thesis by (simp add: changes_detected_typed[OF typed])
qed

text \<open>
  The stored test article against the test post (no change), and against the test post
  with another title (the first case of \<^verbatim>\<open>test_content_change_detection\<close>).
\<close>

theorem needs_update_five_predicates_witness:
  "fst (needs_update test_post_content ''1'' (mock_client ''devto'' False) ''devto''
          stored_world) = Inr False
   \<and> fst (needs_update (test_post_content\<lparr>title := ''Different Title''\<rparr>) ''1''
          (mock_client ''devto'' False) ''devto'' stored_world) = Inr True"
proof -
  have f: "(get_article (mock_client ''devto'' False) ''1'' True (world stored_world) =
              (Inr (Some test_article), world stored_world) \<and> test_article \<noteq> []) \<or>
           (\<exists>a w0. get_article (mock_client ''devto'' False) ''1'' True (world stored_world) =
              (Inr a, w0) \<and> fetched a = None \<and>
              get_article (mock_client ''devto'' False) ''1'' False w0 =
                (Inr (Some test_article), world stored_world) \<and> test_article \<noteq> [])"
    by (rule disjI1) code_simp
  have t: "dict_get test_article ''title'' (PStr []) = PStr ''Test Article''"
    "dict_get test_article ''body_markdown'' (PStr []) =
       PStr (''# Test Article'' @ [newline, newline] @ ''This is test content.'')"
    "existing_tags_of (dict_get test_article ''tags'' (PList [])) =
       map PStr [''python'', ''testing'']"
    "dict_get test_article ''published'' (PBool False) = PBool True"
    "dict_get test_article ''cover_image'' (PStr []) = PStr ''https://example.com/cover.jpg''"
    by (simp_all add: test_article_def dict_get_def)
  have 1: "fst (needs_update test_post_content ''1'' (mock_client ''devto'' False) ''devto''
          stored_world) = Inr False"
    unfolding needs_update_five_predicates[OF f t]
    by (simp add: test_post_content_def)
  have 2: "fst (needs_update (test_post_content\<lparr>title := ''Different Title''\<rparr>) ''1''
          (mock_client ''devto'' False) ''devto'' stored_world) = Inr True"
    unfolding needs_update_five_predicates[OF f t]
    by (simp add: test_post_content_def)
  from 1 2 show ?thesis by blast
qed

lemma publish_to_platform_absent:
  assumes "find_article_by_title client (title pc) (world st) = (Inr (None, ip), w)"
  shows "(\<exists>r st1. publish_to_platform toc pc pn client st = (Inr r, st1) \<and> action r = ''created''
            \<and> platform r = pn)
       \<or> (\<exists>e st1. publish_to_platform toc pc pn client st = (Inl e, st1))"
  by (auto simp: publish_to_platform_def call_find_eq[OF assms] Let_def
           split: prod.splits sum.splits)

lemma publish_to_platform_present:
  assumes "find_article_by_title client (title pc) (world st) = (Inr (Some i, ip), w)"
  shows "(\<exists>r st1. publish_to_platform toc pc pn client st = (Inr r, st1) \<and>
              (action r = ''updated'' \<or> action r = ''skipped'') \<and> platform r = pn)
       \<or> (\<exists>e st1. publish_to_platform toc pc pn client st = (Inl e, st1))"
  by (auto simp: publish_to_platform_def call_find_eq[OF assms] Let_def
           split: prod.splits sum.splits bool.splits)

text \<open>
  Claim C5. When the lookup finds an article and \<^verbatim>\<open>_needs_update\<close> answers \<^verbatim>\<open>False\<close>, the
  outcome of the platform is a success with the action \<^verbatim>\<open>skipped\<close> and the identifier
  found, and the client calls made for the platform are the lookup and the fetches of
  \<^verbatim>\<open>_needs_update\<close>: neither \<^verbatim>\<open>publish_article\<close> nor \<^verbatim>\<open>update_article\<close> is called.
\<close>

theorem unchanged_article_is_skipped:
  assumes f: "find_article_by_title client (title pc) (world st) = (Inr (Some i, ip), w)"
    and n: "needs_update pc i client pn
              \<lparr>world = w, trace = trace st @ [(pn, FindArticleByTitle (title pc))]\<rparr> =
            (Inr False, st2)"
  shows "publish_step toc pc pn client st =
           (\<lparr>platform = pn, success = True, action = ''skipped'',
             article_id = Some (PStr i), error_message = None\<rparr>, st2)
       \<and> (\<exists>extra. trace st2 = trace st @ extra \<and> (\<forall>c \<in> set extra. \<not> is_mutation (snd c)))"
proof
  show "publish_step toc pc pn client st =
           (\<lparr>platform = pn, success = True, action = ''skipped'',
             article_id = Some (PStr i), error_message = None\<rparr>, st2)"
    by (simp add: publish_step_def publish_to_platform_def call_find_eq[OF f] Let_def n)
next
  let ?st1 = "\<lparr>world = w, trace = trace st @ [(pn, FindArticleByTitle (title pc))]\<rparr>"
  obtain extra where e: "trace (snd (needs_update pc i client pn ?st1)) = trace ?st1 @ extra"
    "\<forall>c \<in> set extra. \<not> is_mutation (snd c)"
    using needs_update_trace[of pc i client pn ?st1] by blast
  have "trace st2 = trace st @ ((pn, FindArticleByTitle (title pc)) # extra)"
    using e(1) n by simp
  moreover have "\<forall>c \<in> set ((pn, FindArticleByTitle (title pc)) # extra). \<not> is_mutation (snd c)"
    using e(2) by simp
  ultimately show "\<exists>extra. trace st2 = trace st @ extra \<and> (\<forall>c \<in> set extra. \<not> is_mutation (snd c))"
    by blast
qed

text \<open>The test post against its own stored article: skipped, after two read calls.\<close>

theorem unchanged_article_is_skipped_witness:
  "fst (publish_step no_toc test_post_content ''devto'' (mock_client ''devto'' False)
          stored_world) =
     \<lparr>platform = ''devto'', success = True, action = ''skipped'',
       article_id = Some (PStr ''1''), error_message = None\<rparr>
   \<and> list_all (\<lambda>c. \<not> is_mutation (snd c))
        (trace (snd (publish_step no_toc test_post_content ''devto''
                       (mock_client ''devto'' False) stored_world)))"
proof -
  let ?st2 = "\<lparr>world = world stored_world,
               trace = [(''devto'', FindArticleByTitle ''Test Article''),
                        (''devto'', GetArticle ''1'' True)]\<rparr>"
  have f: "find_article_by_title (mock_client ''devto'' False) (title test_post_content)
             (world stored_world) = (Inr (Some ''1'', Some True), world stored_world)"
    by code_simp
  have n: "needs_update test_post_content ''1'' (mock_client ''devto'' False) ''devto''
              \<lparr>world = world stored_world,
                trace = trace stored_world @
                  [(''devto'', FindArticleByTitle (title test_post_content))]\<rparr> =
            (Inr False, ?st2)"
    by code_simp
  from unchanged_article_is_skipped[OF f n, of no_toc]
  have s: "publish_step no_toc test_post_content ''devto'' (mock_client ''devto'' False)
             stored_world =
           (\<lparr>platform = ''devto'', success = True, action = ''skipped'',
             article_id = Some (PStr ''1''), error_message = None\<rparr>, ?st2)"
    by blast
  show ?thesis unfolding s by simp
qed


lemma publish_step_platform: "platform (fst (publish_step toc pc pn client st)) = pn"
  by (auto simp: publish_step_def publish_to_platform_def Let_def
           split: prod.splits sum.splits option.splits bool.splits)

lemma publish_loop_acc:
  "publish_loop toc pc cs results st =
     (results @ fst (publish_loop toc pc cs [] st), snd (publish_loop toc pc cs [] st))"
proof (induction cs arbitrary: results st)
  case Nil
  then show ?case by simp
next
  case (Cons x cs)
  obtain pn client where x: "x = (pn, client)" by (cases x)
  obtain r st1 where s: "publish_step toc pc pn client st = (r, st1)"
    by (cases "publish_step toc pc pn client st")
  have 1: "publish_loop toc pc (x # cs) results st = publish_loop toc pc cs (results @ [r]) st1"
    by (simp add: x s)
  have 2: "publish_loop toc pc (x # cs) [] st = publish_loop toc pc cs [r] st1"
    by (simp add: x s)
  show ?case
    unfolding 1 2 using Cons.IH[of "results @ [r]" st1] Cons.IH[of "[r]" st1] by simp
qed

lemma publish_loop_append:
  "publish_loop toc pc (xs @ ys) results st =
     (case publish_loop toc pc xs results st of (rs, st1) \<Rightarrow> publish_loop toc pc ys rs st1)"
proof (induction xs arbitrary: results st)
  case Nil
  then show ?case by simp
next
  case (Cons x xs)
  obtain pn client where x: "x = (pn, client)" by (cases x)
  show ?case by (simp add: x Cons.IH split: prod.splits)
qed

lemma publish_loop_platforms:
  "map platform (fst (publish_loop toc pc cs [] st)) = map fst cs"
proof (induction cs arbitrary: st)
  case Nil
  then show ?case by simp
next
  case (Cons x cs)
  obtain pn client where x: "x = (pn, client)" by (cases x)
  obtain r st1 where s: "publish_step toc pc pn client st = (r, st1)"
    by (cases "publish_step toc pc pn client st")
  have p: "platform r = pn" using publish_step_platform[of toc pc pn client st] s by simp
  have "publish_loop toc pc (x # cs) [] st = publish_loop toc pc cs [r] st1"
    by (simp add: x s)
  then have "fst (publish_loop toc pc (x # cs) [] st) = r # fst (publish_loop toc pc cs [] st1)"
    using publish_loop_acc[of toc pc cs "[r]" st1] by simp
  then show ?case using Cons.IH[of st1] p x by simp
qed

lemma publish_loop_split:
  assumes "clients = pre @ (pn, client) # post"
    and "publish_loop toc pc pre [] st0 = (rs1, st)"
  shows "fst (publish_loop toc pc clients [] st0) =
           rs1 @ fst (publish_step toc pc pn client st) #
             fst (publish_loop toc pc post [] (snd (publish_step toc pc pn client st)))
       \<and> length rs1 = length pre"
proof -
  obtain r st2 where s: "publish_step toc pc pn client st = (r, st2)"
    by (cases "publish_step toc pc pn client st")
  have "publish_loop toc pc clients [] st0 = publish_loop toc pc ((pn, client) # post) rs1 st"
    using assms by (simp add: publish_loop_append)
  also have "\<dots> = publish_loop toc pc post (rs1 @ [r]) st2"
    by (simp add: s)
  also have "\<dots> = ((rs1 @ [r]) @ fst (publish_loop toc pc post [] st2),
                     snd (publish_loop toc pc post [] st2))"
    by (rule publish_loop_acc)
  finally have 1: "fst (publish_loop toc pc clients [] st0) =
      rs1 @ r # fst (publish_loop toc pc post [] st2)"
    by simp
  have "map platform (fst (publish_loop toc pc pre [] st0)) = map fst pre"
    by (rule publish_loop_platforms)
  then have "length (map platform rs1) = length (map fst pre)"
    using assms(2) by simp
  then have 2: "length rs1 = length pre" by simp
  show ?thesis using 1 2 s by simp
qed

text \<open>
  Claim C1. In every run of \<^verbatim>\<open>publish_to_all_platforms\<close> and for every platform of the
  client dictionary, with the state in which the platform's turn comes: when
  \<^verbatim>\<open>find_article_by_title\<close> returns no identifier, the action of the platform's result is
  \<^verbatim>\<open>created\<close> or \<^verbatim>\<open>error\<close>, never \<^verbatim>\<open>updated\<close> or \<^verbatim>\<open>skipped\<close>; when it returns an
  identifier, the action is \<^verbatim>\<open>updated\<close>, \<^verbatim>\<open>skipped\<close> or \<^verbatim>\<open>error\<close>, never \<^verbatim>\<open>created\<close>.
\<close>

theorem publish_action_follows_lookup:
  assumes "clients = pre @ (pn, client) # post"
    and "publish_loop toc pc pre [] st0 = (rs1, st)"
  shows "\<exists>rs. fst (publish_to_all_platforms toc clients pc st0) = Inr rs \<and>
           length pre < length rs \<and>
           platform (rs ! length pre) = pn \<and>
           (find_article_by_title client (title pc) (world st) = (Inr (None, ip), w) \<longrightarrow>
              action (rs ! length pre) \<in> {''created'', ''error''} \<and>
              action (rs ! length pre) \<notin> {''updated'', ''skipped''}) \<and>
           (find_article_by_title client (title pc) (world st) = (Inr (Some i, ip), w) \<longrightarrow>
              action (rs ! length pre) \<in> {''updated'', ''skipped'', ''error''} \<and>
              action (rs ! length pre) \<noteq> ''created'')"
proof -
  let ?r = "fst (publish_step toc pc pn client st)"
  let ?rs = "fst (publish_loop toc pc clients [] st0)"
  have split: "?rs = rs1 @ ?r #
        fst (publish_loop toc pc post [] (snd (publish_step toc pc pn client st)))"
    "length rs1 = length pre"
    using publish_loop_split[OF assms] by auto
  have nth: "?rs ! length pre = ?r"
    using split by (metis nth_append_length)
  have len: "length pre < length ?rs"
    using split by simp
  have res: "fst (publish_to_all_platforms toc clients pc st0) = Inr ?rs"
    by (cases "publish_loop toc pc clients [] st0") (simp add: publish_to_all_platforms_def)
  have absent: "find_article_by_title client (title pc) (world st) = (Inr (None, ip), w) \<Longrightarrow>
      action ?r = ''created'' \<or> action ?r = ''error''"
    using publish_to_platform_absent[of client pc st ip w toc pn]
    by (auto simp: publish_step_def)
  have present: "find_article_by_title client (title pc) (world st) = (Inr (Some i, ip), w) \<Longrightarrow>
      action ?r = ''updated'' \<or> action ?r = ''skipped'' \<or> action ?r = ''error''"
    using publish_to_platform_present[of client pc st i ip w toc pn]
    by (auto simp: publish_step_def)
  have "length pre < length ?rs \<and>
           platform (?rs ! length pre) = pn \<and>
           (find_article_by_title client (title pc) (world st) = (Inr (None, ip), w) \<longrightarrow>
              action (?rs ! length pre) \<in> {''created'', ''error''} \<and>
              action (?rs ! length pre) \<notin> {''updated'', ''skipped''}) \<and>
           (find_article_by_title client (title pc) (world st) = (Inr (Some i, ip), w) \<longrightarrow>
              action (?rs ! length pre) \<in> {''updated'', ''skipped'', ''error''} \<and>
              action (?rs ! length pre) \<noteq> ''created'')"
    unfolding nth using len absent present publish_step_platform[of toc pc pn client st]
    by auto
  then show ?thesis using res by blast
qed

text \<open>
  The working mock client behind the failing one, with no article stored: the lookup
  returns none. The working mock client alone, with the test article stored: the lookup
  returns its identifier.
\<close>

theorem publish_action_follows_lookup_witness:
  "(\<exists>rs. fst (publish_to_all_platforms no_toc failing_and_working test_post_content
               empty_world) = Inr rs \<and>
     1 < length rs \<and> platform (rs ! 1) = ''devto'' \<and>
     action (rs ! 1) \<in> {''created'', ''error''})
   \<and> (\<exists>rs. fst (publish_to_all_platforms no_toc [(''devto'', mock_client ''devto'' False)]
               test_post_content stored_world) = Inr rs \<and>
     0 < length rs \<and> platform (rs ! 0) = ''devto'' \<and>
     action (rs ! 0) \<in> {''updated'', ''skipped'', ''error''})"
proof
  let ?st = "\<lparr>world = world empty_world,
              trace = [(''hashnode'', FindArticleByTitle ''Test Article'')]\<rparr>"
  let ?r = "\<lparr>platform = ''hashnode'', success = False, action = ''error'',
             article_id = None,
             error_message = Some ''Unexpected error: Mock error in hashnode''\<rparr>"
  have c: "failing_and_working =
             [(''hashnode'', mock_client ''hashnode'' True)] @
               (''devto'', mock_client ''devto'' False) # []"
    by (simp add: failing_and_working_def)
  have l: "publish_loop no_toc test_post_content [(''hashnode'', mock_client ''hashnode'' True)]
             [] empty_world = ([?r], ?st)"
    by code_simp
  have f: "find_article_by_title (mock_client ''devto'' False) (title test_post_content)
             (world ?st) = (Inr (None, None), world ?st)"
    by code_simp
  from publish_action_follows_lookup[OF c l, where ip = None and w = "world ?st"] f
  show "\<exists>rs. fst (publish_to_all_platforms no_toc failing_and_working test_post_content
               empty_world) = Inr rs \<and>
     1 < length rs \<and> platform (rs ! 1) = ''devto'' \<and>
     action (rs ! 1) \<in> {''created'', ''error''}"
    by auto
next
  have c: "[(''devto'', mock_client ''devto'' False)] =
             [] @ (''devto'', mock_client ''devto'' False) # []"
    by simp
  have l: "publish_loop no_toc test_post_content [] [] stored_world = ([], stored_world)"
    by simp
  have f: "find_article_by_title (mock_client ''devto'' False) (title test_post_content)
             (world stored_world) = (Inr (Some ''1'', Some True), world stored_world)"
    by code_simp
  from publish_action_follows_lookup[OF c l, where i = "''1''" and ip = "Some True"
      and w = "world stored_world"] f
  show "\<exists>rs. fst (publish_to_all_platforms no_toc [(''devto'', mock_client ''devto'' False)]
               test_post_content stored_world) = Inr rs \<and>
     0 < length rs \<and> platform (rs ! 0) = ''devto'' \<and>
     action (rs ! 0) \<in> {''updated'', ''skipped'', ''error''}"
    by auto
qed

lemma call_publish_eq:
  "publish_article client d b (world st) = (r, w) \<Longrightarrow>
   call_publish_article client pn d b st =
     (r, \<lparr>world = w, trace = trace st @ [(pn, PublishArticle d b)]\<rparr>)"
  by (simp add: call_publish_article_def)

lemma call_update_eq:
  "update_article client i d b (world st) = (r, w) \<Longrightarrow>
   call_update_article client pn i d b st =
     (r, \<lparr>world = w, trace = trace st @ [(pn, UpdateArticle i d b)]\<rparr>)"
  by (simp add: call_update_article_def)

lemma needs_update_first_raises:
  assumes "get_article client i True (world st) = (Inl e, w)"
  shows "needs_update pc i client pn st =
           needs_update_except e \<lparr>world = w, trace = trace st @ [(pn, GetArticle i True)]\<rparr>"
  by (simp add: needs_update_def call_get_article_eq[OF assms])

lemma needs_update_second_raises:
  assumes "get_article client i True (world st) = (Inr a, w0)" "fetched a = None"
    "get_article client i False w0 = (Inl e, w)"
  shows "needs_update pc i client pn st =
           needs_update_except e
             \<lparr>world = w, trace = trace st @ [(pn, GetArticle i True), (pn, GetArticle i False)]\<rparr>"
proof -
  let ?st1 = "\<lparr>world = w0, trace = trace st @ [(pn, GetArticle i True)]\<rparr>"
  have c1: "call_get_article client pn i True st = (Inr a, ?st1)"
    using assms(1) by (rule call_get_article_eq)
  have "get_article client i False (world ?st1) = (Inl e, w)" using assms(3) by simp
  then have c2: "call_get_article client pn i False ?st1 =
      (Inl e, \<lparr>world = w, trace = trace ?st1 @ [(pn, GetArticle i False)]\<rparr>)"
    by (rule call_get_article_eq)
  show ?thesis using assms(2) by (simp add: needs_update_def c1 c2)
qed

lemma publish_step_error:
  "publish_to_platform toc pc pn client st = (Inl e, st2) \<Longrightarrow>
   fst (publish_step toc pc pn client st) = error_result pn e"
  by (simp add: publish_step_def)

lemma step_find_raises:
  assumes "find_article_by_title client (title pc) (world st) = (Inl e, w1)"
  shows "fst (publish_step toc pc pn client st) = error_result pn e"
  by (rule publish_step_error) (simp add: publish_to_platform_def call_find_eq[OF assms])

lemma step_publish_raises:
  assumes f: "find_article_by_title client (title pc) (world st) = (Inr (None, ip), w1)"
    and p: "publish_article client (payload toc pc pn) (\<not> save_as_draft pc) w1 = (Inl e, w2)"
  shows "fst (publish_step toc pc pn client st) = error_result pn e"
proof -
  let ?st1 = "\<lparr>world = w1, trace = trace st @ [(pn, FindArticleByTitle (title pc))]\<rparr>"
  have "publish_article client (payload toc pc pn) (\<not> save_as_draft pc) (world ?st1) = (Inl e, w2)"
    using p by simp
  note c = call_publish_eq[OF this, of pn]
  show ?thesis
    by (rule publish_step_error)
       (simp add: publish_to_platform_def call_find_eq[OF f] Let_def c)
qed

lemma step_needs_update_true:
  assumes f: "find_article_by_title client (title pc) (world st) = (Inr (Some i, ip), w1)"
    and n: "needs_update pc i client pn
              \<lparr>world = w1, trace = trace st @ [(pn, FindArticleByTitle (title pc))]\<rparr> =
            (Inr True, st3)"
  shows "update_article client i (payload toc pc pn) (\<not> save_as_draft pc) (world st3) = (Inl e, w3)
           \<Longrightarrow> fst (publish_step toc pc pn client st) = error_result pn e"
    and "update_article client i (payload toc pc pn) (\<not> save_as_draft pc) (world st3) = (Inr resp, w3)
           \<Longrightarrow> fst (publish_step toc pc pn client st) = updated_result pn i"
proof -
  assume u: "update_article client i (payload toc pc pn) (\<not> save_as_draft pc) (world st3) = (Inl e, w3)"
  show "fst (publish_step toc pc pn client st) = error_result pn e"
    by (rule publish_step_error)
       (simp add: publish_to_platform_def call_find_eq[OF f] Let_def n call_update_eq[OF u])
next
  assume u: "update_article client i (payload toc pc pn) (\<not> save_as_draft pc) (world st3) = (Inr resp, w3)"
  show "fst (publish_step toc pc pn client st) = updated_result pn i"
    by (simp add: publish_step_def publish_to_platform_def call_find_eq[OF f] Let_def n
          call_update_eq[OF u])
qed

lemma step_needs_update_raises:
  assumes f: "find_article_by_title client (title pc) (world st) = (Inr (Some i, ip), w1)"
    and n: "needs_update pc i client pn
              \<lparr>world = w1, trace = trace st @ [(pn, FindArticleByTitle (title pc))]\<rparr> =
            (Inl e, st3)"
  shows "fst (publish_step toc pc pn client st) = error_result pn e"
  by (rule publish_step_error)
     (simp add: publish_to_platform_def call_find_eq[OF f] Let_def n)

text \<open>
  Claim C2, as amended. \<^verbatim>\<open>publish_to_all_platforms\<close> raises no exception and returns one
  result per entry of the client dictionary, in its order and with its platform names;
  the results behind that of a platform are those of processing the remaining platforms
  from the state that platform left. If \<^verbatim>\<open>_publish_to_platform\<close> raises, the result of the
  platform is a failure with the action \<^verbatim>\<open>error\<close> and the exception's message (for the
  three publishing errors), or the message behind \<^verbatim>\<open>"Unexpected error: "\<close> (for any other
  exception). That is the case when \<^verbatim>\<open>find_article_by_title\<close>, \<^verbatim>\<open>publish_article\<close> or
  \<^verbatim>\<open>update_article\<close> raises, and when \<^verbatim>\<open>get_article\<close> raises a publishing error during
  change detection. Any other exception of \<^verbatim>\<open>get_article\<close> during change detection does
  not become an error result: \<^verbatim>\<open>_needs_update\<close> catches it and answers that an update is
  needed, and when \<^verbatim>\<open>update_article\<close> then returns, the result is a success with the
  action \<^verbatim>\<open>updated\<close>.
\<close>

theorem publish_to_all_platforms_isolates_failures:
  "(\<exists>rs. fst (publish_to_all_platforms toc clients pc st) = Inr rs \<and>
          map platform rs = map fst clients)
   \<and> (\<forall>pre pn client post rs1 st1.
         clients = pre @ (pn, client) # post \<and>
         publish_loop toc pc pre [] st = (rs1, st1) \<longrightarrow>
         (\<exists>r st2.
            publish_to_all_platforms toc clients pc st =
              (Inr (rs1 @ r # fst (publish_loop toc pc post [] st2)),
               snd (publish_loop toc pc post [] st2)) \<and>
            (\<forall>e st2'. publish_to_platform toc pc pn client st1 = (Inl e, st2') \<longrightarrow>
               r = error_result pn e \<and> st2 = st2') \<and>
            (\<forall>e w1. find_article_by_title client (title pc) (world st1) = (Inl e, w1) \<longrightarrow>
               r = error_result pn e) \<and>
            (\<forall>ip w1 e w2.
               find_article_by_title client (title pc) (world st1) = (Inr (None, ip), w1) \<and>
               publish_article client (payload toc pc pn) (\<not> save_as_draft pc) w1 = (Inl e, w2) \<longrightarrow>
               r = error_result pn e) \<and>
            (\<forall>i ip w1 st3 e w3.
               find_article_by_title client (title pc) (world st1) = (Inr (Some i, ip), w1) \<and>
               needs_update pc i client pn
                 \<lparr>world = w1, trace = trace st1 @ [(pn, FindArticleByTitle (title pc))]\<rparr> =
                 (Inr True, st3) \<and>
               update_article client i (payload toc pc pn) (\<not> save_as_draft pc) (world st3) =
                 (Inl e, w3) \<longrightarrow>
               r = error_result pn e) \<and>
            (\<forall>i ip w1 e w2.
               find_article_by_title client (title pc) (world st1) = (Inr (Some i, ip), w1) \<and>
               get_article client i True w1 = (Inl e, w2) \<and> is_publishing_error e \<longrightarrow>
               r = error_result pn e) \<and>
            (\<forall>i ip w1 a w2 e w3.
               find_article_by_title client (title pc) (world st1) = (Inr (Some i, ip), w1) \<and>
               get_article client i True w1 = (Inr a, w2) \<and> fetched a = None \<and>
               get_article client i False w2 = (Inl e, w3) \<and> is_publishing_error e \<longrightarrow>
               r = error_result pn e) \<and>
            (\<forall>i ip w1 e w2 resp w3.
               find_article_by_title client (title pc) (world st1) = (Inr (Some i, ip), w1) \<and>
               get_article client i True w1 = (Inl e, w2) \<and> \<not> is_publishing_error e \<and>
               update_article client i (payload toc pc pn) (\<not> save_as_draft pc) w2 =
                 (Inr resp, w3) \<longrightarrow>
               r = updated_result pn i) \<and>
            (\<forall>i ip w1 a w2 e w3 resp w4.
               find_article_by_title client (title pc) (world st1) = (Inr (Some i, ip), w1) \<and>
               get_article client i True w1 = (Inr a, w2) \<and> fetched a = None \<and>
               get_article client i False w2 = (Inl e, w3) \<and> \<not> is_publishing_error e \<and>
               update_article client i (payload toc pc pn) (\<not> save_as_draft pc) w3 =
                 (Inr resp, w4) \<longrightarrow>
               r = updated_result pn i)))"
proof (intro conjI allI impI)
  show "\<exists>rs. fst (publish_to_all_platforms toc clients pc st) = Inr rs \<and>
          map platform rs = map fst clients"
    using publish_loop_platforms[of toc pc clients st]
    by (cases "publish_loop toc pc clients [] st") (simp add: publish_to_all_platforms_def)
next
  fix pre pn client post rs1 and st1 :: "'a state"
  assume a: "clients = pre @ (pn, client) # post \<and>
         publish_loop toc pc pre [] st = (rs1, st1)"
  let ?r = "fst (publish_step toc pc pn client st1)"
  let ?st2 = "snd (publish_step toc pc pn client st1)"
  let ?f = "\<lambda>w. \<lparr>world = w, trace = trace st1 @ [(pn, FindArticleByTitle (title pc))]\<rparr>"
  have s: "publish_step toc pc pn client st1 = (?r, ?st2)" by simp
  have "publish_loop toc pc clients [] st = publish_loop toc pc ((pn, client) # post) rs1 st1"
    using a by (simp add: publish_loop_append)
  also have "\<dots> = publish_loop toc pc post (rs1 @ [?r]) ?st2"
    by (simp add: split_beta)
  also have "\<dots> = ((rs1 @ [?r]) @ fst (publish_loop toc pc post [] ?st2),
                     snd (publish_loop toc pc post [] ?st2))"
    by (rule publish_loop_acc)
  finally have whole: "publish_to_all_platforms toc clients pc st =
      (Inr (rs1 @ ?r # fst (publish_loop toc pc post [] ?st2)),
       snd (publish_loop toc pc post [] ?st2))"
    by (simp add: publish_to_all_platforms_def)
  have c0: "\<forall>e st2'. publish_to_platform toc pc pn client st1 = (Inl e, st2') \<longrightarrow>
               ?r = error_result pn e \<and> ?st2 = st2'"
    by (simp add: publish_step_def)
  have c1: "\<forall>e w1. find_article_by_title client (title pc) (world st1) = (Inl e, w1) \<longrightarrow>
               ?r = error_result pn e"
    by (intro allI impI) (rule step_find_raises)
  have c2: "\<forall>ip w1 e w2.
               find_article_by_title client (title pc) (world st1) = (Inr (None, ip), w1) \<and>
               publish_article client (payload toc pc pn) (\<not> save_as_draft pc) w1 = (Inl e, w2) \<longrightarrow>
               ?r = error_result pn e"
  proof (intro allI impI)
    fix ip w1 e w2
    assume h: "find_article_by_title client (title pc) (world st1) = (Inr (None, ip), w1) \<and>
               publish_article client (payload toc pc pn) (\<not> save_as_draft pc) w1 = (Inl e, w2)"
    show "?r = error_result pn e"
      by (rule step_publish_raises[OF conjunct1[OF h] conjunct2[OF h]])
  qed
  have c3: "\<forall>i ip w1 st3 e w3.
               find_article_by_title client (title pc) (world st1) = (Inr (Some i, ip), w1) \<and>
               needs_update pc i client pn (?f w1) = (Inr True, st3) \<and>
               update_article client i (payload toc pc pn) (\<not> save_as_draft pc) (world st3) =
                 (Inl e, w3) \<longrightarrow>
               ?r = error_result pn e"
  proof (intro allI impI)
    fix i ip w1 st3 e w3
    assume h: "find_article_by_title client (title pc) (world st1) = (Inr (Some i, ip), w1) \<and>
               needs_update pc i client pn (?f w1) = (Inr True, st3) \<and>
               update_article client i (payload toc pc pn) (\<not> save_as_draft pc) (world st3) =
                 (Inl e, w3)"
    show "?r = error_result pn e"
      by (rule step_needs_update_true(1)[OF conjunct1[OF h] conjunct1[OF conjunct2[OF h]]
            conjunct2[OF conjunct2[OF h]]])
  qed
  have c4: "\<forall>i ip w1 e w2.
               find_article_by_title client (title pc) (world st1) = (Inr (Some i, ip), w1) \<and>
               get_article client i True w1 = (Inl e, w2) \<and> is_publishing_error e \<longrightarrow>
               ?r = error_result pn e"
  proof (intro allI impI)
    fix i ip w1 e w2
    assume h: "find_article_by_title client (title pc) (world st1) = (Inr (Some i, ip), w1) \<and>
               get_article client i True w1 = (Inl e, w2) \<and> is_publishing_error e"
    then have "get_article client i True (world (?f w1)) = (Inl e, w2)" by simp
    from needs_update_first_raises[OF this, of pc pn] h
    have "needs_update pc i client pn (?f w1) =
            (Inl e, \<lparr>world = w2, trace = trace (?f w1) @ [(pn, GetArticle i True)]\<rparr>)"
      by (simp add: needs_update_except_def)
    then show "?r = error_result pn e"
      by (rule step_needs_update_raises[OF conjunct1[OF h]])
  qed
  have c5: "\<forall>i ip w1 a w2 e w3.
               find_article_by_title client (title pc) (world st1) = (Inr (Some i, ip), w1) \<and>
               get_article client i True w1 = (Inr a, w2) \<and> fetched a = None \<and>
               get_article client i False w2 = (Inl e, w3) \<and> is_publishing_error e \<longrightarrow>
               ?r = error_result pn e"
  proof (intro allI impI)
    fix i ip w1 a w2 e w3
    assume h: "find_article_by_title client (title pc) (world st1) = (Inr (Some i, ip), w1) \<and>
               get_article client i True w1 = (Inr a, w2) \<and> fetched a = None \<and>
               get_article client i False w2 = (Inl e, w3) \<and> is_publishing_error e"
    then have g: "get_article client i True (world (?f w1)) = (Inr a, w2)" "fetched a = None"
      "get_article client i False w2 = (Inl e, w3)" by simp_all
    from needs_update_second_raises[OF g, of pc pn] h
    have "needs_update pc i client pn (?f w1) =
            (Inl e, \<lparr>world = w3,
                      trace = trace (?f w1) @ [(pn, GetArticle i True), (pn, GetArticle i False)]\<rparr>)"
      by (simp add: needs_update_except_def)
    then show "?r = error_result pn e"
      by (rule step_needs_update_raises[OF conjunct1[OF h]])
  qed
  have c6: "\<forall>i ip w1 e w2 resp w3.
               find_article_by_title client (title pc) (world st1) = (Inr (Some i, ip), w1) \<and>
               get_article client i True w1 = (Inl e, w2) \<and> \<not> is_publishing_error e \<and>
               update_article client i (payload toc pc pn) (\<not> save_as_draft pc) w2 =
                 (Inr resp, w3) \<longrightarrow>
               ?r = updated_result pn i"
  proof (intro allI impI)
    fix i ip w1 e w2 resp w3
    assume h: "find_article_by_title client (title pc) (world st1) = (Inr (Some i, ip), w1) \<and>
               get_article client i True w1 = (Inl e, w2) \<and> \<not> is_publishing_error e \<and>
               update_article client i (payload toc pc pn) (\<not> save_as_draft pc) w2 =
                 (Inr resp, w3)"
    let ?st3 = "\<lparr>world = w2, trace = trace (?f w1) @ [(pn, GetArticle i True)]\<rparr>"
    from h have "get_article client i True (world (?f w1)) = (Inl e, w2)" by simp
    from needs_update_first_raises[OF this, of pc pn] h
    have n: "needs_update pc i client pn (?f w1) = (Inr True, ?st3)"
      by (simp add: needs_update_except_def)
    have u: "update_article client i (payload toc pc pn) (\<not> save_as_draft pc) (world ?st3) =
                 (Inr resp, w3)" using h by simp
    show "?r = updated_result pn i"
      by (rule step_needs_update_true(2)[OF conjunct1[OF h] n u])
  qed
  have c7: "\<forall>i ip w1 a w2 e w3 resp w4.
               find_article_by_title client (title pc) (world st1) = (Inr (Some i, ip), w1) \<and>
               get_article client i True w1 = (Inr a, w2) \<and> fetched a = None \<and>
               get_article client i False w2 = (Inl e, w3) \<and> \<not> is_publishing_error e \<and>
               update_article client i (payload toc pc pn) (\<not> save_as_draft pc) w3 =
                 (Inr resp, w4) \<longrightarrow>
               ?r = updated_result pn i"
  proof (intro allI impI)
    fix i ip w1 a w2 e w3 resp w4
    assume h: "find_article_by_title client (title pc) (world st1) = (Inr (Some i, ip), w1) \<and>
               get_article client i True w1 = (Inr a, w2) \<and> fetched a = None \<and>
               get_article client i False w2 = (Inl e, w3) \<and> \<not> is_publishing_error e \<and>
               update_article client i (payload toc pc pn) (\<not> save_as_draft pc) w3 =
                 (Inr resp, w4)"
    let ?st3 = "\<lparr>world = w3,
                  trace = trace (?f w1) @ [(pn, GetArticle i True), (pn, GetArticle i False)]\<rparr>"
    from h have g: "get_article client i True (world (?f w1)) = (Inr a, w2)" "fetched a = None"
      "get_article client i False w2 = (Inl e, w3)" by simp_all
    from needs_update_second_raises[OF g, of pc pn] h
    have n: "needs_update pc i client pn (?f w1) = (Inr True, ?st3)"
      by (simp add: needs_update_except_def)
    have u: "update_article client i (payload toc pc pn) (\<not> save_as_draft pc) (world ?st3) =
                 (Inr resp, w4)" using h by simp
    show "?r = updated_result pn i"
      by (rule step_needs_update_true(2)[OF conjunct1[OF h] n u])
  qed
  show "\<exists>r st2.
            publish_to_all_platforms toc clients pc st =
              (Inr (rs1 @ r # fst (publish_loop toc pc post [] st2)),
               snd (publish_loop toc pc post [] st2)) \<and>
            (\<forall>e st2'. publish_to_platform toc pc pn client st1 = (Inl e, st2') \<longrightarrow>
               r = error_result pn e \<and> st2 = st2') \<and>
            (\<forall>e w1. find_article_by_title client (title pc) (world st1) = (Inl e, w1) \<longrightarrow>
               r = error_result pn e) \<and>
            (\<forall>ip w1 e w2.
               find_article_by_title client (title pc) (world st1) = (Inr (None, ip), w1) \<and>
               publish_article client (payload toc pc pn) (\<not> save_as_draft pc) w1 = (Inl e, w2) \<longrightarrow>
               r = error_result pn e) \<and>
            (\<forall>i ip w1 st3 e w3.
               find_article_by_title client (title pc) (world st1) = (Inr (Some i, ip), w1) \<and>
               needs_update pc i client pn
                 \<lparr>world = w1, trace = trace st1 @ [(pn, FindArticleByTitle (title pc))]\<rparr> =
                 (Inr True, st3) \<and>
               update_article client i (payload toc pc pn) (\<not> save_as_draft pc) (world st3) =
                 (Inl e, w3) \<longrightarrow>
               r = error_result pn e) \<and>
            (\<forall>i ip w1 e w2.
               find_article_by_title client (title pc) (world st1) = (Inr (Some i, ip), w1) \<and>
               get_article client i True w1 = (Inl e, w2) \<and> is_publishing_error e \<longrightarrow>
               r = error_result pn e) \<and>
            (\<forall>i ip w1 a w2 e w3.
               find_article_by_title client (title pc) (world st1) = (Inr (Some i, ip), w1) \<and>
               get_article client i True w1 = (Inr a, w2) \<and> fetched a = None \<and>
               get_article client i False w2 = (Inl e, w3) \<and> is_publishing_error e \<longrightarrow>
               r = error_result pn e) \<and>
            (\<forall>i ip w1 e w2 resp w3.
               find_article_by_title client (title pc) (world st1) = (Inr (Some i, ip), w1) \<and>
               get_article client i True w1 = (Inl e, w2) \<and> \<not> is_publishing_error e \<and>
               update_article client i (payload toc pc pn) (\<not> save_as_draft pc) w2 =
                 (Inr resp, w3) \<longrightarrow>
               r = updated_result pn i) \<and>
            (\<forall>i ip w1 a w2 e w3 resp w4.
               find_article_by_title client (title pc) (world st1) = (Inr (Some i, ip), w1) \<and>
               get_article client i True w1 = (Inr a, w2) \<and> fetched a = None \<and>
               get_article client i False w2 = (Inl e, w3) \<and> \<not> is_publishing_error e \<and>
               update_article client i (payload toc pc pn) (\<not> save_as_draft pc) w3 =
                 (Inr resp, w4) \<longrightarrow>
               r = updated_result pn i)"
    by (rule exI[of _ ?r], rule exI[of _ ?st2]) (intro conjI whole c0 c1 c2 c3 c4 c5 c6 c7)
qed

text \<open>
  A client whose \<^verbatim>\<open>get_article\<close> raises \<^verbatim>\<open>ValueError\<close> before one that always raises: two
  results, an update and an error.
\<close>

theorem publish_to_all_platforms_isolates_failures_witness:
  "(\<exists>rest. fst (publish_to_all_platforms no_toc unreadable_and_failing test_post_content
                   stored_world) =
            Inr (updated_result ''devto'' ''1'' # rest))
   \<and> fst (publish_to_all_platforms no_toc unreadable_and_failing test_post_content
            stored_world) =
       Inr [updated_result ''devto'' ''1'',
            error_result ''hashnode'' (OtherError ''Mock error in hashnode'')]"
proof
  let ?pc = test_post_content
  have h1: "unreadable_and_failing =
              [] @ (''devto'', fetch_failing_client) # [(''hashnode'', mock_client ''hashnode'' True)]"
    by (simp add: unreadable_and_failing_def)
  have h2: "publish_loop no_toc ?pc [] [] stored_world = ([], stored_world)"
    by simp
  from publish_to_all_platforms_isolates_failures[THEN conjunct2, rule_format,
      OF conjI[OF h1 h2]]
  obtain r st2 where
    whole: "publish_to_all_platforms no_toc unreadable_and_failing ?pc stored_world =
              (Inr ([] @ r # fst (publish_loop no_toc ?pc
                                    [(''hashnode'', mock_client ''hashnode'' True)] [] st2)),
               snd (publish_loop no_toc ?pc
                      [(''hashnode'', mock_client ''hashnode'' True)] [] st2))"
    and swallowed: "\<forall>i ip w1 e w2 resp w3.
               find_article_by_title fetch_failing_client (title ?pc) (world stored_world) =
                 (Inr (Some i, ip), w1) \<and>
               get_article fetch_failing_client i True w1 = (Inl e, w2) \<and>
               \<not> is_publishing_error e \<and>
               update_article fetch_failing_client i (payload no_toc ?pc ''devto'')
                 (\<not> save_as_draft ?pc) w2 = (Inr resp, w3) \<longrightarrow>
               r = updated_result ''devto'' i"
    by (elim exE conjE) (rule that, assumption+)
  have f: "find_article_by_title fetch_failing_client (title ?pc) (world stored_world) =
             (Inr (Some ''1'', Some True), world stored_world)"
    by code_simp
  have g: "get_article fetch_failing_client ''1'' True (world stored_world) =
             (Inl (ValueError ''invalid response''), world stored_world)"
    by (simp add: fetch_failing_client_def)
  have n: "\<not> is_publishing_error (ValueError ''invalid response'')"
    by simp
  obtain resp w3 where
    u: "update_article fetch_failing_client ''1'' (payload no_toc ?pc ''devto'')
          (\<not> save_as_draft ?pc) (world stored_world) = (Inr resp, w3)"
    by (simp add: fetch_failing_client_def mock_client_def mock_update_article_def)
  from swallowed f g n u have "r = updated_result ''devto'' ''1''"
    by blast
  with whole
  show "\<exists>rest. fst (publish_to_all_platforms no_toc unreadable_and_failing ?pc stored_world) =
            Inr (updated_result ''devto'' ''1'' # rest)"
    by simp
next
  let ?pc = test_post_content
  let ?st1 = "snd (publish_loop no_toc ?pc [(''devto'', fetch_failing_client)] [] stored_world)"
  have h1: "unreadable_and_failing =
              [(''devto'', fetch_failing_client)] @ (''hashnode'', mock_client ''hashnode'' True) # []"
    by (simp add: unreadable_and_failing_def)
  have l: "fst (publish_loop no_toc ?pc [(''devto'', fetch_failing_client)] [] stored_world) =
             [updated_result ''devto'' ''1'']"
    by code_simp
  then have h2: "publish_loop no_toc ?pc [(''devto'', fetch_failing_client)] [] stored_world =
             ([updated_result ''devto'' ''1''], ?st1)"
    by (simp add: prod_eq_iff)
  from publish_to_all_platforms_isolates_failures[THEN conjunct2, rule_format,
      OF conjI[OF h1 h2]]
  obtain r st2 where
    whole: "publish_to_all_platforms no_toc unreadable_and_failing ?pc stored_world =
              (Inr ([updated_result ''devto'' ''1''] @ r # fst (publish_loop no_toc ?pc [] [] st2)),
               snd (publish_loop no_toc ?pc [] [] st2))"
    and raised: "\<forall>e w1. find_article_by_title (mock_client ''hashnode'' True) (title ?pc)
                           (world ?st1) = (Inl e, w1) \<longrightarrow>
               r = error_result ''hashnode'' e"
    by (elim exE conjE) (rule that, assumption+)
  have "find_article_by_title (mock_client ''hashnode'' True) (title ?pc) (world ?st1) =
          (Inl (OtherError ''Mock error in hashnode''), world ?st1)"
    by (simp add: mock_client_def mock_find_article_by_title_def mock_error_def)
  with raised have "r = error_result ''hashnode'' (OtherError ''Mock error in hashnode'')"
    by blast
  with whole
  show "fst (publish_to_all_platforms no_toc unreadable_and_failing ?pc stored_world) =
       Inr [updated_result ''devto'' ''1'',
            error_result ''hashnode'' (OtherError ''Mock error in hashnode'')]"
    by simp
qed

text \<open>
  Claim C2 as stated fails: \<^verbatim>\<open>get_article\<close> raises a \<^verbatim>\<open>ValueError\<close> while the platform is
  processed, and the result of the platform is a success with the action \<^verbatim>\<open>updated\<close>,
  after a call of \<^verbatim>\<open>update_article\<close>.
\<close>

theorem swallowed_fetch_failure_counterexample:
  "get_article fetch_failing_client ''1'' True (world stored_world) =
     (Inl (ValueError ''invalid response''), world stored_world)
   \<and> map snd (trace (snd (publish_to_all_platforms no_toc [(''devto'', fetch_failing_client)]
                               test_post_content stored_world))) =
       [FindArticleByTitle ''Test Article'', GetArticle ''1'' True,
        UpdateArticle ''1'' (payload no_toc test_post_content ''devto'') True]
   \<and> fst (publish_to_all_platforms no_toc [(''devto'', fetch_failing_client)]
            test_post_content stored_world) =
       Inr [\<lparr>platform = ''devto'', success = True, action = ''updated'',
              article_id = Some (PStr ''1''), error_message = None\<rparr>]"
  by code_simp

text \<open>
  Claim C10. With an empty client dictionary \<^verbatim>\<open>publish_to_all_platforms\<close> returns the
  empty list, raises nothing and calls no client.
\<close>

theorem publish_to_all_platforms_empty:
  "publish_to_all_platforms toc [] pc st = (Inr [], st)"
  by (simp add: publish_to_all_platforms_def)

end
